theory Spec2Isabelle
  imports Complex_Main
begin

section \<open>Data model\<close>

text \<open>
  The queue demo keeps one JSON blob under the key \<open>state\<close> of the blob store
  \<open>queue-state\<close>. Every function (admission, dispatcher, status, clear) reads that blob,
  changes a local copy and writes the whole copy back.

  Payloads are the values \<open>JSON.parse\<close> gives. A number is a double: \<open>JNum r\<close> is
  a finite one other than \<open>-0\<close>, with value \<open>r\<close>; \<open>JNegZero\<close> is \<open>-0\<close>;
  \<open>JInf True\<close> and \<open>JInf False\<close> are \<open>Infinity\<close> and \<open>-Infinity\<close>, which a
  literal beyond the range of a double parses to (\<open>1e400\<close>). An object is the list of
  its own properties, each key once.
\<close>

datatype json =
    JNull
  | JBool bool
  | JNum real
  | JNegZero
  | JInf bool
  | JStr string
  | JArr "json list"
  | JObj "(string \<times> json) list"

text \<open>
  \<open>JSON.parse(JSON.stringify(v))\<close>: a non-finite number is written as \<open>null\<close> and
  \<open>-0\<close> as \<open>0\<close>, wherever it stands; every other value comes back as it was (a
  finite double is written in a form that parses back to it).
\<close>

primrec sanitize :: "json \<Rightarrow> json" where
  "sanitize JNull = JNull"
| "sanitize (JBool b) = JBool b"
| "sanitize (JNum r) = JNum r"
| "sanitize JNegZero = JNum 0"
| "sanitize (JInf positive) = JNull"
| "sanitize (JStr s) = JStr s"
| "sanitize (JArr xs) = JArr (map sanitize xs)"
| "sanitize (JObj kvs) = JObj (map (map_prod id sanitize) kvs)"

datatype Status = Queued | Processing | Completed | Failed

text \<open>The interface \<open>Task\<close>; the field \<open>id\<close> is called \<open>id_t\<close> here.\<close>

record Task =
  id_t :: string
  status :: Status
  createdAt :: int
  startedAt :: "int option"
  completedAt :: "int option"
  data :: "json option"

text \<open>
  The interface \<open>QueueState\<close>. The blob is JSON, and blobs written by the older,
  concurrency-limited functions have no \<open>rateLimitHistory\<close> key, so that field is
  optional in what is stored.
\<close>

record QueueState =
  queue :: "string list"
  processing :: "string list"
  completed :: "string list"
  tasks :: "string \<rightharpoonup> Task"
  rateLimitHistory :: "int list option"

definition history :: "QueueState \<Rightarrow> int list" where
  "history s = (case rateLimitHistory s of None \<Rightarrow> [] | Some h \<Rightarrow> h)"

text \<open>
  What the store holds of a state is its JSON text, so what is read back is the state
  with every payload as \<open>JSON.stringify\<close> wrote it. Identifiers, statuses and
  timestamps come back as they were, and a field that is not set stays unset.
\<close>

definition stored_task :: "Task \<Rightarrow> Task" where
  "stored_task task = task\<lparr>data := map_option sanitize (data task)\<rparr>"

definition stored_tasks :: "(string \<rightharpoonup> Task) \<Rightarrow> (string \<rightharpoonup> Task)" where
  "stored_tasks m = (\<lambda>k. map_option stored_task (m k))"

definition stored :: "QueueState \<Rightarrow> QueueState" where
  "stored s = s\<lparr>tasks := stored_tasks (tasks s)\<rparr>"

text \<open>
  \<open>state.tasks\<close> is a plain object, so \<open>state.tasks[id]\<close> finds the record under
  the own key \<open>id\<close> and, where there is none, what every object inherits from
  \<open>Object.prototype\<close> under that name: a function, or for \<open>__proto__\<close> the prototype
  itself, all of them truthy. \<open>object_prototype\<close> lists the names that the language
  gives \<open>Object.prototype\<close>; the model is of a process in which nothing has added to
  them. \<open>has_task\<close> is the truthiness of \<open>state.tasks[id]\<close>.
\<close>

definition object_prototype :: "string list" where
  "object_prototype =
     [''constructor'', ''hasOwnProperty'', ''isPrototypeOf'', ''propertyIsEnumerable'',
      ''toLocaleString'', ''toString'', ''valueOf'', ''__proto__'', ''__defineGetter__'',
      ''__defineSetter__'', ''__lookupGetter__'', ''__lookupSetter__'']"

definition has_task :: "QueueState \<Rightarrow> string \<Rightarrow> bool" where
  "has_task state taskId \<longleftrightarrow>
     taskId \<in> dom (tasks state) \<or> taskId \<in> set object_prototype"

text \<open>
  \<open>const task = state.tasks[id]; task.f = v\<close>: the assignment changes the record under
  \<open>id\<close> when there is one. When \<open>task\<close> is an inherited value the assignment lands
  on that function or on the prototype, which is no part of the state and is not written
  to the store.
\<close>

definition mark :: "string \<Rightarrow> (Task \<Rightarrow> Task) \<Rightarrow> QueueState \<Rightarrow> QueueState" where
  "mark taskId f state =
     (case tasks state taskId of
        None \<Rightarrow> state
      | Some task \<Rightarrow> state\<lparr>tasks := (tasks state)(taskId \<mapsto> f task)\<rparr>)"

section \<open>The blob store and the wake signal\<close>

text \<open>
  The world a function runs in: the stored blob (absent before the first write), as
  \<open>store.get\<close> with \<open>type: "json"\<close> parses it; the values passed to \<open>store.set\<close>
  so far, in order, each as its JSON text parses; and the number of calls of
  \<open>client.send("process-task")\<close> so far.

  Whether a call of \<open>store.set\<close> or \<open>client.send\<close> succeeds is decided by the
  environment: \<open>set_ok e n\<close> says whether the call number \<open>n\<close> of \<open>store.set\<close>
  (counted from 0) succeeds, \<open>send_ok e n\<close> the same for \<open>client.send\<close>. A failed
  \<open>store.set\<close> rejects and leaves the blob as it was. Reads (\<open>store.get\<close>) are taken
  to succeed, so a \<open>catch\<close> that only a failed read could reach (the 500 of the status
  endpoint) has no counterpart here.
\<close>

record world =
  blob :: "QueueState option"
  set_log :: "QueueState list"
  sends :: nat

record env =
  set_ok :: "nat \<Rightarrow> bool"
  send_ok :: "nat \<Rightarrow> bool"

text \<open>\<open>store.set("state", JSON.stringify(v))\<close>.\<close>

definition store_set :: "env \<Rightarrow> QueueState \<Rightarrow> world \<Rightarrow> bool \<times> world" where
  "store_set e v w =
     (let ok = set_ok e (length (set_log w)) in
      (ok, w\<lparr>blob := (if ok then Some (stored v) else blob w),
            set_log := set_log w @ [stored v]\<rparr>))"

definition client_send :: "env \<Rightarrow> world \<Rightarrow> bool \<times> world" where
  "client_send e w = (send_ok e (sends w), w\<lparr>sends := Suc (sends w)\<rparr>)"

text \<open>\<open>saveQueueState\<close> is the same in every file: one call of \<open>store.set\<close>.\<close>

definition saveQueueState :: "env \<Rightarrow> QueueState \<Rightarrow> world \<Rightarrow> bool \<times> world" where
  "saveQueueState e state w = store_set e state w"

text \<open>
  \<open>getQueueState\<close> of the rate-limited files (process-task.mts, the rate-limited
  queue-task and queue-status): an absent blob reads as the empty state, and a blob
  without \<open>rateLimitHistory\<close> gets an empty one.
\<close>

definition emptyState_rl :: QueueState where
  "emptyState_rl =
     \<lparr>queue = [], processing = [], completed = [], tasks = Map.empty,
      rateLimitHistory = Some []\<rparr>"

definition getQueueState_rl :: "world \<Rightarrow> QueueState" where
  "getQueueState_rl w =
     (case blob w of
        None \<Rightarrow> emptyState_rl
      | Some d \<Rightarrow>
          (case rateLimitHistory d of
             None \<Rightarrow> d\<lparr>rateLimitHistory := Some []\<rparr>
           | Some h \<Rightarrow> d))"

text \<open>
  \<open>getQueueState\<close> of the concurrency-limited files (the older process-task and
  queue-task.mts): the blob as it is, or an empty state without \<open>rateLimitHistory\<close>.
\<close>

definition emptyState_cc :: QueueState where
  "emptyState_cc =
     \<lparr>queue = [], processing = [], completed = [], tasks = Map.empty,
      rateLimitHistory = None\<rparr>"

definition getQueueState_cc :: "world \<Rightarrow> QueueState" where
  "getQueueState_cc w = (case blob w of None \<Rightarrow> emptyState_cc | Some d \<Rightarrow> d)"

section \<open>The dispatcher, rate-limited (process-task.mts)\<close>

definition RATE_LIMIT_REQUESTS :: nat where
  "RATE_LIMIT_REQUESTS = 250"

text \<open>
  \<open>Date.now()\<close> is read four times between the gate and the write; the readings are
  kept apart: \<open>now\<close> for the rate window, \<open>t_started\<close> for \<open>startedAt\<close>,
  \<open>t_pushed\<close> for the entry pushed on the history, \<open>t_prune\<close> for the one-hour
  horizon.
\<close>

record start_clock =
  now :: int
  t_started :: int
  t_pushed :: int
  t_prune :: int

definition recentStarts :: "int \<Rightarrow> QueueState \<Rightarrow> nat" where
  "recentStarts t state =
     (let oneMinuteAgo = t - 60000 in
      length (filter (\<lambda>timestamp. timestamp > oneMinuteAgo) (history state)))"

text \<open>How the first part of a turn (up to the first write) ends.\<close>

datatype start_result =
    NoTasks
  | RateLimited
  | MaxConcurrency
  | TaskNotFound string
  | SaveFailed
  | Started string

text \<open>
  The state \<open>processNextTask\<close> builds for a task it starts, lines 86 to 98, from the
  state with the head of the queue shifted off: the task is marked processing, its
  identifier pushed on \<open>processing\<close>, the start pushed on the history, the history
  pruned.
\<close>

definition claimed_rl :: "start_clock \<Rightarrow> string \<Rightarrow> QueueState \<Rightarrow> QueueState" where
  "claimed_rl c taskId state =
     (let state1 = (mark taskId (\<lambda>task. task\<lparr>status := Processing,
                                               startedAt := Some (t_started c)\<rparr>) state)
                     \<lparr>processing := processing state @ [taskId]\<rparr>;
          state2 = state1\<lparr>rateLimitHistory := Some (history state1 @ [t_pushed c])\<rparr>;
          oneHourAgo = t_prune c - 3600000
      in state2\<lparr>rateLimitHistory :=
                  Some (filter (\<lambda>timestamp. timestamp > oneHourAgo) (history state2))\<rparr>)"

text \<open>Lines 55 to 100 of \<open>processNextTask\<close>: read, gates, claim, write.\<close>

definition processNextTask_start_rl ::
  "env \<Rightarrow> start_clock \<Rightarrow> world \<Rightarrow> start_result \<times> world" where
  "processNextTask_start_rl e c w =
     (let state = getQueueState_rl w in
      if length (queue state) = 0 then (NoTasks, w)
      else if recentStarts (now c) state \<ge> RATE_LIMIT_REQUESTS then (RateLimited, w)
      else
        (let taskId = hd (queue state);
             shifted = state\<lparr>queue := tl (queue state)\<rparr>
         in if \<not> has_task shifted taskId then (TaskNotFound taskId, w)
            else
              (case saveQueueState e (claimed_rl c taskId shifted) w of
                 (True, w') \<Rightarrow> (Started taskId, w')
               | (False, w') \<Rightarrow> (SaveFailed, w'))))"

text \<open>
  Lines 112 to 128: after the task's 30 seconds the state is read again, the identifier
  is spliced out of \<open>processing\<close> where \<open>indexOf\<close> finds it, and when
  \<open>updatedState.tasks[taskId]\<close> is truthy the task is marked completed and the
  identifier pushed on \<open>completed\<close>; then the state is written. The result says
  whether the write succeeded.
\<close>

definition completed_state :: "string \<Rightarrow> int \<Rightarrow> QueueState \<Rightarrow> QueueState" where
  "completed_state taskId t updatedState =
     (let spliced = updatedState\<lparr>processing := remove1 taskId (processing updatedState)\<rparr>
      in if has_task spliced taskId
         then (mark taskId (\<lambda>task. task\<lparr>status := Completed, completedAt := Some t\<rparr>)
                 spliced)
                \<lparr>completed := completed spliced @ [taskId]\<rparr>
         else spliced)"

definition processNextTask_complete_rl ::
  "env \<Rightarrow> string \<Rightarrow> int \<Rightarrow> world \<Rightarrow> bool \<times> world" where
  "processNextTask_complete_rl e taskId t w =
     saveQueueState e (completed_state taskId t (getQueueState_rl w)) w"

text \<open>
  Lines 131 to 146: with work left and the rate gate open the turn sends the wake signal
  for the next turn. \<open>None\<close> is no signal, \<open>Some ok\<close> a signal whose sending
  succeeded or failed.
\<close>

definition processNextTask_retrigger_rl :: "env \<Rightarrow> int \<Rightarrow> world \<Rightarrow> bool option \<times> world" where
  "processNextTask_retrigger_rl e finalNow w =
     (let finalState = getQueueState_rl w in
      if length (queue finalState) > 0 \<and> recentStarts finalNow finalState < RATE_LIMIT_REQUESTS
      then (case client_send e w of (ok, w') \<Rightarrow> (Some ok, w'))
      else (None, w))"

text \<open>
  How a whole turn ends: it returns early, or an awaited call rejects and the rejection
  leaves \<open>processNextTask\<close> (there is no handler for it), or the task is completed.
\<close>

datatype turn_result =
    Stopped start_result
  | Rejected_at_start
  | Rejected_at_completion string
  | Rejected_at_wake string
  | Finished string bool

text \<open>
  The whole turn. Nothing is held while the task runs, so what other functions do to the
  blob during the 30 seconds is the parameter \<open>during\<close>.
\<close>

definition processNextTask_rl ::
  "env \<Rightarrow> start_clock \<Rightarrow> (QueueState option \<Rightarrow> QueueState option) \<Rightarrow> int \<Rightarrow> int \<Rightarrow> world
     \<Rightarrow> turn_result \<times> world" where
  "processNextTask_rl e c during t_done finalNow w =
     (case processNextTask_start_rl e c w of
        (Started taskId, w1) \<Rightarrow>
          (case processNextTask_complete_rl e taskId t_done (w1\<lparr>blob := during (blob w1)\<rparr>) of
             (False, w2) \<Rightarrow> (Rejected_at_completion taskId, w2)
           | (True, w2) \<Rightarrow>
               (case processNextTask_retrigger_rl e finalNow w2 of
                  (Some False, w3) \<Rightarrow> (Rejected_at_wake taskId, w3)
                | (Some True, w3) \<Rightarrow> (Finished taskId True, w3)
                | (None, w3) \<Rightarrow> (Finished taskId False, w3)))
      | (SaveFailed, w1) \<Rightarrow> (Rejected_at_start, w1)
      | (r, w1) \<Rightarrow> (Stopped r, w1))"

section \<open>The dispatcher, concurrency-limited (the older process-task)\<close>

definition MAX_CONCURRENCY :: nat where
  "MAX_CONCURRENCY = 6"

definition claimed_cc :: "int \<Rightarrow> string \<Rightarrow> QueueState \<Rightarrow> QueueState" where
  "claimed_cc t taskId state =
     (mark taskId (\<lambda>task. task\<lparr>status := Processing, startedAt := Some t\<rparr>) state)
       \<lparr>processing := processing state @ [taskId]\<rparr>"

text \<open>Lines 49 to 76 of the older \<open>processNextTask\<close>: the concurrency gate comes first.\<close>

definition processNextTask_start_cc :: "env \<Rightarrow> int \<Rightarrow> world \<Rightarrow> start_result \<times> world" where
  "processNextTask_start_cc e t w =
     (let state = getQueueState_cc w in
      if length (processing state) \<ge> MAX_CONCURRENCY then (MaxConcurrency, w)
      else if length (queue state) = 0 then (NoTasks, w)
      else
        (let taskId = hd (queue state);
             shifted = state\<lparr>queue := tl (queue state)\<rparr>
         in if \<not> has_task shifted taskId then (TaskNotFound taskId, w)
            else
              (case saveQueueState e (claimed_cc t taskId shifted) w of
                 (True, w') \<Rightarrow> (Started taskId, w')
               | (False, w') \<Rightarrow> (SaveFailed, w'))))"

definition processNextTask_complete_cc ::
  "env \<Rightarrow> string \<Rightarrow> int \<Rightarrow> world \<Rightarrow> bool \<times> world" where
  "processNextTask_complete_cc e taskId t w =
     saveQueueState e (completed_state taskId t (getQueueState_cc w)) w"

definition processNextTask_retrigger_cc :: "env \<Rightarrow> world \<Rightarrow> bool option \<times> world" where
  "processNextTask_retrigger_cc e w =
     (let finalState = getQueueState_cc w in
      if length (queue finalState) > 0 \<and> length (processing finalState) < MAX_CONCURRENCY
      then (case client_send e w of (ok, w') \<Rightarrow> (Some ok, w'))
      else (None, w))"

definition processNextTask_cc ::
  "env \<Rightarrow> int \<Rightarrow> (QueueState option \<Rightarrow> QueueState option) \<Rightarrow> int \<Rightarrow> world
     \<Rightarrow> turn_result \<times> world" where
  "processNextTask_cc e t during t_done w =
     (case processNextTask_start_cc e t w of
        (Started taskId, w1) \<Rightarrow>
          (case processNextTask_complete_cc e taskId t_done (w1\<lparr>blob := during (blob w1)\<rparr>) of
             (False, w2) \<Rightarrow> (Rejected_at_completion taskId, w2)
           | (True, w2) \<Rightarrow>
               (case processNextTask_retrigger_cc e w2 of
                  (Some False, w3) \<Rightarrow> (Rejected_at_wake taskId, w3)
                | (Some True, w3) \<Rightarrow> (Finished taskId True, w3)
                | (None, w3) \<Rightarrow> (Finished taskId False, w3)))
      | (SaveFailed, w1) \<Rightarrow> (Rejected_at_start, w1)
      | (r, w1) \<Rightarrow> (Stopped r, w1))"

section \<open>Admission (queue-task.mts)\<close>

text \<open>
  A request: its method (\<open>req_method\<close>) and what \<open>req.json()\<close> gives,
  \<open>None\<close> when it rejects (no body, or a body that is not JSON). The parsed value of
  an object has each key once.
\<close>

record request =
  req_method :: string
  json_body :: "json option"

datatype js_error = TypeError | Error string

text \<open>
  \<open>body.data\<close>: reading a property of \<open>null\<close> throws a TypeError; an object gives
  the value under the key, or \<open>undefined\<close> (\<open>None\<close>); a boolean, number, string or
  array has no property \<open>data\<close>.
\<close>

fun body_data :: "json \<Rightarrow> js_error + json option" where
  "body_data JNull = Inl TypeError"
| "body_data (JObj kvs) = Inr (map_of kvs ''data'')"
| "body_data _ = Inr None"

text \<open>Truthiness of a value that came out of JSON, and \<open>a || b\<close>.\<close>

fun truthy :: "json option \<Rightarrow> bool" where
  "truthy None = False"
| "truthy (Some JNull) = False"
| "truthy (Some (JBool b)) = b"
| "truthy (Some (JNum r)) = (r \<noteq> 0)"
| "truthy (Some JNegZero) = False"
| "truthy (Some (JInf positive)) = True"
| "truthy (Some (JStr s)) = (s \<noteq> [])"
| "truthy (Some (JArr _)) = True"
| "truthy (Some (JObj _)) = True"

definition or_else :: "json option \<Rightarrow> json \<Rightarrow> json" where
  "or_else a b = (if truthy a then the a else b)"

datatype queue_response =
    Q405
  | Q200 string nat
  | Q500 js_error

text \<open>Lines 79 and 80: \<open>state.queue.push(taskId); state.tasks[taskId] = task\<close>.\<close>

definition enqueue :: "string \<Rightarrow> Task \<Rightarrow> QueueState \<Rightarrow> QueueState" where
  "enqueue taskId task state =
     state\<lparr>queue := queue state @ [taskId], tasks := (tasks state)(taskId \<mapsto> task)\<rparr>"

text \<open>
  The retry loop, lines 61 to 92. The arguments are the retries left, the identifiers
  the generator will produce next, the current \<open>taskId\<close> and \<open>task\<close>. The loop ends
  with \<open>Some (state, taskId)\<close> after a successful write and with \<open>None\<close> when the
  retries are used up. An identifier for which \<open>state.tasks[taskId]\<close> is truthy is
  replaced by the next generated one without using up a retry, so the loop runs for as
  long as the generator collides; the model has a finite supply of identifiers and gives
  the outer \<open>None\<close> when it needs one more than it has.
\<close>

fun queue_loop_cc ::
  "env \<Rightarrow> nat \<Rightarrow> string list \<Rightarrow> string \<Rightarrow> Task \<Rightarrow> world
     \<Rightarrow> ((QueueState \<times> string) option \<times> world) option" where
  "queue_loop_cc e 0 ids taskId task w = Some (None, w)"
| "queue_loop_cc e (Suc retries) ids taskId task w =
     (let state = getQueueState_cc w in
      if has_task state taskId then
        (case ids of
           [] \<Rightarrow> None
         | newId # ids' \<Rightarrow> queue_loop_cc e (Suc retries) ids' newId (task\<lparr>id_t := newId\<rparr>) w)
      else
        (let state' = enqueue taskId task state
         in case saveQueueState e state' w of
              (True, w') \<Rightarrow> Some (Some (state', taskId), w')
            | (False, w') \<Rightarrow> queue_loop_cc e retries ids taskId task w'))"

text \<open>
  The wake signal after a successful admission is sent inside its own \<open>try\<close>: a send
  that fails is logged and forgotten.
\<close>

definition wake_quietly :: "env \<Rightarrow> world \<Rightarrow> world" where
  "wake_quietly e w = snd (client_send e w)"

definition new_task :: "string \<Rightarrow> int \<Rightarrow> json option \<Rightarrow> Task" where
  "new_task taskId t d =
     \<lparr>id_t = taskId, status = Queued, createdAt = t, startedAt = None, completedAt = None,
      data = Some (or_else d (JObj []))\<rparr>"

text \<open>
  The handler. \<open>ids\<close> are the identifiers the generator produces, the first one at line
  49; \<open>t\<close> is the reading of \<open>Date.now()\<close> for \<open>createdAt\<close>.
\<close>

definition queue_task_cc ::
  "env \<Rightarrow> request \<Rightarrow> string list \<Rightarrow> int \<Rightarrow> world \<Rightarrow> (queue_response \<times> world) option" where
  "queue_task_cc e req ids t w =
     (if req_method req \<noteq> ''POST'' then Some (Q405, w)
      else
        (let body = (case json_body req of None \<Rightarrow> JObj [] | Some v \<Rightarrow> v) in
         case ids of
           [] \<Rightarrow> None
         | taskId # ids' \<Rightarrow>
             (case body_data body of
                Inl err \<Rightarrow> Some (Q500 err, w)
              | Inr d \<Rightarrow>
                  (case queue_loop_cc e 5 ids' taskId (new_task taskId t d) w of
                     None \<Rightarrow> None
                   | Some (None, w') \<Rightarrow>
                       Some (Q500 (Error ''Failed to queue task after retries''), w')
                   | Some (Some (state, taskId'), w') \<Rightarrow>
                       Some (Q200 taskId' (length (queue state)),
                             if length (processing state) < MAX_CONCURRENCY
                             then wake_quietly e w' else w')))))"

section \<open>Admission, rate-limited (the later queue-task)\<close>

text \<open>
  The later version reads the state once before the loop and, in every attempt, puts
  that first copy's \<open>rateLimitHistory\<close> into the freshly read state before writing.
\<close>

fun queue_loop_rl ::
  "env \<Rightarrow> nat \<Rightarrow> string list \<Rightarrow> string \<Rightarrow> Task \<Rightarrow> QueueState \<Rightarrow> world
     \<Rightarrow> ((QueueState \<times> string) option \<times> world) option" where
  "queue_loop_rl e 0 ids taskId task state w = Some (None, w)"
| "queue_loop_rl e (Suc retries) ids taskId task state w =
     (let currentState = getQueueState_rl w in
      if has_task currentState taskId then
        (case ids of
           [] \<Rightarrow> None
         | newId # ids' \<Rightarrow>
             queue_loop_rl e (Suc retries) ids' newId (task\<lparr>id_t := newId\<rparr>) state w)
      else
        (let currentState' = (enqueue taskId task currentState)
                                \<lparr>rateLimitHistory := rateLimitHistory state\<rparr>
         in case saveQueueState e currentState' w of
              (True, w') \<Rightarrow> Some (Some (currentState', taskId), w')
            | (False, w') \<Rightarrow> queue_loop_rl e retries ids taskId task state w'))"

definition queue_task_rl ::
  "env \<Rightarrow> request \<Rightarrow> string list \<Rightarrow> int \<Rightarrow> world \<Rightarrow> (queue_response \<times> world) option" where
  "queue_task_rl e req ids t w =
     (if req_method req \<noteq> ''POST'' then Some (Q405, w)
      else
        (let body = (case json_body req of None \<Rightarrow> JObj [] | Some v \<Rightarrow> v) in
         case ids of
           [] \<Rightarrow> None
         | taskId # ids' \<Rightarrow>
             (case body_data body of
                Inl err \<Rightarrow> Some (Q500 err, w)
              | Inr d \<Rightarrow>
                  (case queue_loop_rl e 5 ids' taskId (new_task taskId t d)
                          (getQueueState_rl w) w of
                     None \<Rightarrow> None
                   | Some (None, w') \<Rightarrow>
                       Some (Q500 (Error ''Failed to queue task after retries''), w')
                   | Some (Some (state, taskId'), w') \<Rightarrow>
                       Some (Q200 taskId' (length (queue state)), wake_quietly e w')))))"

section \<open>Status (queue-status, rate-limited) and clear (clear-queue.mts)\<close>

record rate_info =
  limit :: nat
  windowSeconds :: nat
  used :: nat
  remaining :: int
  resetAt :: "int option"

record stats =
  queuedCount :: nat
  processingCount :: nat
  completedCount :: nat
  totalTasks :: nat

text \<open>
  An element of a list of the status is what \<open>state.tasks[id]\<close> gave: a task record,
  or the value inherited under the name \<open>id\<close>, which \<open>JSON.stringify\<close> writes as
  \<open>null\<close> for a function and as \<open>{}\<close> for the prototype.
\<close>

datatype entry = Record Task | Inherited_value string

record status_body =
  queued_r :: "entry list"
  processing_r :: "entry list"
  completed_r :: "entry list"
  stats_r :: stats
  rateLimit_r :: rate_info

datatype status_response = S405 | S200 status_body

text \<open>
  \<open>ids.map((id) => state.tasks[id]).filter(Boolean)\<close>: what the lookup gives for
  the identifiers for which it is truthy, in order.
\<close>

definition lookup :: "QueueState \<Rightarrow> string \<Rightarrow> entry option" where
  "lookup state taskId =
     (case tasks state taskId of
        Some task \<Rightarrow> Some (Record task)
      | None \<Rightarrow> if taskId \<in> set object_prototype then Some (Inherited_value taskId)
                else None)"

definition resolve :: "QueueState \<Rightarrow> string list \<Rightarrow> entry list" where
  "resolve state ids = List.map_filter (lookup state) ids"

text \<open>\<open>xs.slice(-50)\<close>: the last 50 elements, all of them when there are fewer.\<close>

definition last50 :: "'a list \<Rightarrow> 'a list" where
  "last50 xs = drop (length xs - 50) xs"

definition queue_status :: "string \<Rightarrow> int \<Rightarrow> world \<Rightarrow> status_response \<times> world" where
  "queue_status m t w =
     (if m \<noteq> ''GET'' then (S405, w)
      else
        (let state = getQueueState_rl w;
             queued = resolve state (queue state);
             processing' = resolve state (processing state);
             completed' = resolve state (last50 (completed state));
             oneMinuteAgo = t - 60000;
             recent = length (filter (\<lambda>timestamp. timestamp > oneMinuteAgo) (history state))
         in (S200
              \<lparr>queued_r = queued, processing_r = processing', completed_r = completed',
               stats_r = \<lparr>queuedCount = length queued, processingCount = length processing',
                          completedCount = length completed',
                          totalTasks = card (dom (tasks state))\<rparr>,
               rateLimit_r =
                 \<lparr>limit = 250, windowSeconds = 60, used = recent,
                  remaining = max 0 (250 - int recent),
                  resetAt =
                    (if length (history state) > 0 \<and> recent > 0
                     then Some (min_list (filter (\<lambda>t. t > oneMinuteAgo) (history state)) + 60000)
                     else None)\<rparr>\<rparr>,
             w)))"

datatype clear_response = C405 | C200 | C500

definition clear_queue :: "env \<Rightarrow> string \<Rightarrow> world \<Rightarrow> clear_response \<times> world" where
  "clear_queue e m w =
     (if m \<noteq> ''POST'' then (C405, w)
      else (case store_set e emptyState_rl w of
              (True, w') \<Rightarrow> (C200, w')
            | (False, w') \<Rightarrow> (C500, w')))"

section \<open>Predicates the properties are stated with\<close>

text \<open>
  The payload a request carries: the \<open>data\<close> property of its parsed body, \<open>None\<close>
  when the request has no parsed body or the body has no such property.
\<close>

definition given_payload :: "request \<Rightarrow> json option" where
  "given_payload req =
     (case json_body req of
        None \<Rightarrow> None
      | Some body \<Rightarrow> (case body_data body of Inl err \<Rightarrow> None | Inr d \<Rightarrow> d))"

text \<open>
  A payload that \<open>JSON.stringify\<close> writes as it is: no number in it is non-finite or
  \<open>-0\<close>. A state is clean when every payload in it is so, as in every state that was
  read from the store.
\<close>

fun plain :: "json \<Rightarrow> bool" where
  "plain JNegZero = False"
| "plain (JInf positive) = False"
| "plain (JArr xs) = (\<forall>x \<in> set xs. plain x)"
| "plain (JObj kvs) = (\<forall>kv \<in> set kvs. plain (snd kv))"
| "plain v = True"

definition clean :: "QueueState \<Rightarrow> bool" where
  "clean s \<longleftrightarrow> (\<forall>task \<in> ran (tasks s). \<forall>d. data task = Some d \<longrightarrow> plain d)"

text \<open>
  The two invariants of the data model: every identifier in one of the three lists has a
  task record, and no identifier is in two of the lists. \<open>no_repeats\<close> says in addition
  that no list holds an identifier twice, and \<open>sound\<close> is all of it together.
  \<open>holds_in P w\<close> says that the stored blob, if there is one, satisfies \<open>P\<close>.
\<close>

definition listed :: "QueueState \<Rightarrow> string set" where
  "listed s = set (queue s) \<union> set (processing s) \<union> set (completed s)"

definition invariant :: "QueueState \<Rightarrow> bool" where
  "invariant s \<longleftrightarrow>
     (\<forall>i \<in> listed s. tasks s i \<noteq> None)
     \<and> set (queue s) \<inter> set (processing s) = {}
     \<and> set (queue s) \<inter> set (completed s) = {}
     \<and> set (processing s) \<inter> set (completed s) = {}"

definition no_repeats :: "QueueState \<Rightarrow> bool" where
  "no_repeats s \<longleftrightarrow>
     distinct (queue s) \<and> distinct (processing s) \<and> distinct (completed s)"

definition sound :: "QueueState \<Rightarrow> bool" where
  "sound s \<longleftrightarrow> invariant s \<and> no_repeats s"

definition holds_in :: "(QueueState \<Rightarrow> bool) \<Rightarrow> world \<Rightarrow> bool" where
  "holds_in P w = (case blob w of None \<Rightarrow> True | Some s \<Rightarrow> P s)"

section \<open>Example environments, worlds and requests\<close>

text \<open>
  Concrete inputs on which the theorems below are evaluated. \<open>all_ok\<close> is a store
  whose writes all succeed, \<open>fail_all\<close> one whose writes all fail, \<open>fail_first\<close>
  and \<open>fail_second\<close> fail one write only.
\<close>

definition all_ok :: env where
  "all_ok = \<lparr>set_ok = (\<lambda>n. True), send_ok = (\<lambda>n. True)\<rparr>"

definition fail_all :: env where
  "fail_all = \<lparr>set_ok = (\<lambda>n. False), send_ok = (\<lambda>n. True)\<rparr>"

definition task_a :: Task where
  "task_a = \<lparr>id_t = ''task-a'', status = Queued, createdAt = 1000, startedAt = None,
             completedAt = None, data = Some (JObj [])\<rparr>"

definition world_of :: "QueueState \<Rightarrow> world" where
  "world_of s = \<lparr>blob = Some s, set_log = [], sends = 0\<rparr>"

definition empty_world :: world where
  "empty_world = \<lparr>blob = None, set_log = [], sends = 0\<rparr>"

definition clock_at :: "int \<Rightarrow> start_clock" where
  "clock_at t = \<lparr>now = t, t_started = t, t_pushed = t, t_prune = t\<rparr>"

definition post :: "json option \<Rightarrow> request" where
  "post b = \<lparr>req_method = ''POST'', json_body = b\<rparr>"

definition one_pending :: QueueState where
  "one_pending = \<lparr>queue = [''task-a''], processing = [], completed = [],
                  tasks = [''task-a'' \<mapsto> task_a], rateLimitHistory = Some [5, 4000000]\<rparr>"

definition rate_full :: QueueState where
  "rate_full = \<lparr>queue = [''task-a''], processing = [], completed = [],
                tasks = [''task-a'' \<mapsto> task_a],
                rateLimitHistory = Some (replicate 250 4000000)\<rparr>"

definition slots_full :: QueueState where
  "slots_full = \<lparr>queue = [''task-a''], processing = replicate 6 ''task-b'', completed = [],
                 tasks = [''task-a'' \<mapsto> task_a], rateLimitHistory = None\<rparr>"





definition three_starts :: QueueState where
  "three_starts = \<lparr>queue = [], processing = [], completed = [], tasks = Map.empty,
                   rateLimitHistory = Some [3000000, 3950000, 3990000]\<rparr>"

definition fail_first :: env where
  "fail_first = \<lparr>set_ok = (\<lambda>n. n \<noteq> 0), send_ok = (\<lambda>n. True)\<rparr>"

definition fail_second :: env where
  "fail_second = \<lparr>set_ok = (\<lambda>n. n \<noteq> 1), send_ok = (\<lambda>n. True)\<rparr>"

text \<open>
  \<open>one_pending\<close> after a turn started at 4000001 has claimed \<open>task-a\<close>, and after
  the turn has completed it at 4030001.
\<close>

definition a_claimed :: QueueState where
  "a_claimed = \<lparr>queue = [], processing = [''task-a''], completed = [],
                tasks = [''task-a'' \<mapsto>
                           task_a\<lparr>status := Processing, startedAt := Some 4000001\<rparr>],
                rateLimitHistory = Some [4000000, 4000001]\<rparr>"

definition a_completed :: QueueState where
  "a_completed = \<lparr>queue = [], processing = [], completed = [''task-a''],
                  tasks = [''task-a'' \<mapsto>
                             task_a\<lparr>status := Completed, startedAt := Some 4000001,
                                    completedAt := Some 4030001\<rparr>],
                  rateLimitHistory = Some [4000000, 4000001]\<rparr>"

text \<open>\<open>one_pending\<close> after the admission of \<open>task-b\<close> with payload \<open>d\<close> at 2000.\<close>

definition task_b :: "json \<Rightarrow> Task" where
  "task_b d = \<lparr>id_t = ''task-b'', status = Queued, createdAt = 2000, startedAt = None,
               completedAt = None, data = Some d\<rparr>"

definition b_queued :: "json \<Rightarrow> QueueState" where
  "b_queued d = \<lparr>queue = [''task-a'', ''task-b''], processing = [], completed = [],
                 tasks = [''task-a'' \<mapsto> task_a, ''task-b'' \<mapsto> task_b d],
                 rateLimitHistory = Some [5, 4000000]\<rparr>"

text \<open>A queue that holds one identifier twice.\<close>

definition twice_pending :: QueueState where
  "twice_pending = \<lparr>queue = [''task-a'', ''task-a''], processing = [], completed = [],
                    tasks = [''task-a'' \<mapsto> task_a], rateLimitHistory = Some []\<rparr>"

text \<open>
  What is stored when the turn that claimed \<open>task-a\<close> completes it on top of
  \<open>b_queued\<close>, a state written from a copy read before the claim.
\<close>

definition a_done_still_queued :: QueueState where
  "a_done_still_queued =
     \<lparr>queue = [''task-a'', ''task-b''], processing = [], completed = [''task-a''],
      tasks = [''task-b'' \<mapsto> task_b (JObj []),
               ''task-a'' \<mapsto> task_a\<lparr>status := Completed, completedAt := Some 4030001\<rparr>],
      rateLimitHistory = Some [5, 4000000]\<rparr>"

section \<open>Properties of the store\<close>

lemma has_task_iff:
  "has_task state taskId \<longleftrightarrow> tasks state taskId \<noteq> None \<or> taskId \<in> set object_prototype"
  by (auto simp add: has_task_def)

text \<open>A plain payload is written as it is, and what is written is plain.\<close>

lemma sanitize_plain: "plain v \<Longrightarrow> sanitize v = v"
proof (induction v)
  case (JArr xs)
  then show ?case by (simp add: map_idI)
next
  case (JObj kvs)
  have "map (map_prod id sanitize) kvs = kvs"
  proof (rule map_idI)
    fix kv assume kv: "kv \<in> set kvs"
    with JObj.prems have "plain (snd kv)" by simp
    with JObj.IH kv have "sanitize (snd kv) = snd kv"
      by (cases kv) auto
    then show "map_prod id sanitize kv = kv" by (cases kv) simp
  qed
  then show ?case by simp
qed simp_all

lemma plain_sanitize: "plain (sanitize v)"
proof (induction v)
  case (JObj kvs)
  then show ?case by (fastforce simp add: image_iff)
qed auto

lemma stored_tasks_empty [simp]: "stored_tasks Map.empty = Map.empty"
  by (simp add: stored_tasks_def)

lemma stored_tasks_upd [simp]:
  "stored_tasks (m(k \<mapsto> task)) = (stored_tasks m)(k \<mapsto> stored_task task)"
  by (rule ext) (simp add: stored_tasks_def)

lemma stored_tasks_None [simp]: "stored_tasks m k = None \<longleftrightarrow> m k = None"
  by (simp add: stored_tasks_def)

lemma stored_fields [simp]:
  "queue (stored s) = queue s" "processing (stored s) = processing s"
  "completed (stored s) = completed s" "rateLimitHistory (stored s) = rateLimitHistory s"
  "history (stored s) = history s" "tasks (stored s) = stored_tasks (tasks s)"
  by (simp_all add: stored_def history_def)

lemma stored_task_clean:
  "(\<forall>d. data task = Some d \<longrightarrow> plain d) \<Longrightarrow> stored_task task = task"
  by (cases "data task") (simp_all add: stored_task_def sanitize_plain)

text \<open>
  A clean state is stored as it is, and what is stored is clean: after the first write
  the blob is clean for good.
\<close>

lemma stored_clean: "clean s \<Longrightarrow> stored s = s"
proof -
  assume c: "clean s"
  have "stored_tasks (tasks s) = tasks s"
  proof (rule ext)
    fix k show "stored_tasks (tasks s) k = tasks s k"
    proof (cases "tasks s k")
      case None
      then show ?thesis by (simp add: stored_tasks_def)
    next
      case (Some task)
      then have "task \<in> ran (tasks s)" by (auto simp add: ran_def)
      with c have "stored_task task = task"
        by (intro stored_task_clean) (auto simp add: clean_def)
      with Some show ?thesis by (simp add: stored_tasks_def)
    qed
  qed
  then show ?thesis by (simp add: stored_def)
qed

lemma clean_stored: "clean (stored s)"
  by (auto simp add: clean_def ran_def stored_tasks_def stored_task_def plain_sanitize)

lemma save_failed:
  "\<not> set_ok e (length (set_log w)) \<Longrightarrow>
     saveQueueState e st w = (False, w\<lparr>set_log := set_log w @ [stored st]\<rparr>)"
  by (simp add: saveQueueState_def store_set_def)

lemma save_ok:
  "set_ok e (length (set_log w)) \<Longrightarrow>
     saveQueueState e st w =
       (True, w\<lparr>blob := Some (stored st), set_log := set_log w @ [stored st]\<rparr>)"
  by (simp add: saveQueueState_def store_set_def)

lemma getQueueState_cc_log [simp]:
  "getQueueState_cc (w\<lparr>set_log := l\<rparr>) = getQueueState_cc w"
  by (simp add: getQueueState_cc_def)

lemma getQueueState_rl_log [simp]:
  "getQueueState_rl (w\<lparr>set_log := l\<rparr>) = getQueueState_rl w"
  by (simp add: getQueueState_rl_def)

section \<open>The dispatcher\<close>

text \<open>
  C1. Take the state a turn of the rate-limited dispatcher reads. If its queue is not
  empty, fewer than 250 entries of its history are later than one minute before
  \<open>now\<close>, and the identifier at the head of the queue has a task record, then the
  turn calls \<open>store.set\<close> once, with the state in which the head is removed from the
  queue and appended to \<open>processing\<close>, its record has status processing and the start
  timestamp, the timestamp of the start is appended to the history, and every history
  entry not later than one hour before the pruning timestamp is gone. When that write
  succeeds the blob is this state and the turn goes on with the started task; when it
  fails the blob is as before. What the store holds of the state is its JSON text
  (\<open>stored\<close>), which for a clean state, as every state read from the store is, parses
  back to the state itself. All entries left in the history are later than the horizon,
  and the new entry is the last one unless the clock moved an hour between the push and
  the pruning.
\<close>

theorem start_claim_rl:
  fixes e c w
  defines "state \<equiv> getQueueState_rl w"
  defines "taskId \<equiv> hd (queue state)"
  defines "state' \<equiv> state
      \<lparr>queue := tl (queue state),
       processing := processing state @ [taskId],
       tasks := (tasks state)(taskId \<mapsto>
                  (the (tasks state taskId))\<lparr>status := Processing,
                                              startedAt := Some (t_started c)\<rparr>),
       rateLimitHistory :=
         Some (filter (\<lambda>ts. t_prune c - 3600000 < ts) (history state @ [t_pushed c]))\<rparr>"
  assumes pending: "queue state \<noteq> []"
    and gate: "recentStarts (now c) state < 250"
    and known: "tasks state taskId \<noteq> None"
  shows "snd (processNextTask_start_rl e c w) =
           w\<lparr>blob := (if set_ok e (length (set_log w)) then Some (stored state')
                      else blob w),
             set_log := set_log w @ [stored state']\<rparr>
       \<and> (clean state \<longrightarrow> stored state' = state')
       \<and> fst (processNextTask_start_rl e c w) =
           (if set_ok e (length (set_log w)) then Started taskId else SaveFailed)
       \<and> (\<forall>ts \<in> set (history state'). t_prune c - 3600000 < ts)
       \<and> (t_prune c - 3600000 < t_pushed c \<longrightarrow>
            history state' =
              filter (\<lambda>ts. t_prune c - 3600000 < ts) (history state) @ [t_pushed c])"
proof -
  from known obtain task where task: "tasks state taskId = Some task" by auto
  have claimed: "claimed_rl c taskId (state\<lparr>queue := tl (queue state)\<rparr>) = state'"
    using task unfolding state'_def
    by (simp add: claimed_rl_def mark_def Let_def history_def)
  have found: "has_task (state\<lparr>queue := tl (queue state)\<rparr>) taskId"
    using task by (simp add: has_task_iff)
  have run: "processNextTask_start_rl e c w =
      (case saveQueueState e state' w of
         (True, w') \<Rightarrow> (Started taskId, w') | (False, w') \<Rightarrow> (SaveFailed, w'))"
    using pending gate found claimed
    unfolding state_def taskId_def
    by (simp add: processNextTask_start_rl_def Let_def RATE_LIMIT_REQUESTS_def)
  have kept: "clean state \<Longrightarrow> clean state'"
    using task unfolding state'_def
    by (auto simp add: clean_def ran_def split: if_splits)
  have hist: "history state' =
      filter (\<lambda>ts. t_prune c - 3600000 < ts) (history state @ [t_pushed c])"
    unfolding state'_def by (simp add: history_def)
  show ?thesis
    using run kept hist
    by (cases "set_ok e (length (set_log w))") (auto simp add: save_ok save_failed stored_clean)
qed

theorem start_claim_rl_witness:
  "queue (getQueueState_rl (world_of one_pending)) \<noteq> []
   \<and> recentStarts 4000001 (getQueueState_rl (world_of one_pending)) < 250
   \<and> tasks (getQueueState_rl (world_of one_pending)) ''task-a'' \<noteq> None
   \<and> processNextTask_start_rl all_ok (clock_at 4000001) (world_of one_pending) =
       (Started ''task-a'',
        \<lparr>blob = Some \<lparr>queue = [], processing = [''task-a''], completed = [],
                     tasks = [''task-a'' \<mapsto>
                                task_a\<lparr>status := Processing, startedAt := Some 4000001\<rparr>],
                     rateLimitHistory = Some [4000000, 4000001]\<rparr>,
         set_log = [\<lparr>queue = [], processing = [''task-a''], completed = [],
                     tasks = [''task-a'' \<mapsto>
                                task_a\<lparr>status := Processing, startedAt := Some 4000001\<rparr>],
                     rateLimitHistory = Some [4000000, 4000001]\<rparr>],
         sends = 0\<rparr>)"
  using start_claim_rl [where e = all_ok and c = "clock_at 4000001"
      and w = "world_of one_pending"]
  by (simp add: world_of_def one_pending_def all_ok_def clock_at_def getQueueState_rl_def
      recentStarts_def history_def prod_eq_iff stored_def stored_task_def task_a_def)

text \<open>
  C2. When the queue that a turn reads is empty or its gate is closed (250 or more
  starts in the last minute for the rate-limited dispatcher, 6 or more identifiers in
  \<open>processing\<close> for the concurrency-limited one), the whole turn returns early and
  leaves the world as it was: the blob is unchanged, \<open>store.set\<close> is not called, and
  no wake signal is sent.
\<close>

theorem closed_gate_no_write:
  "(queue (getQueueState_rl w) = [] \<or> 250 \<le> recentStarts (now c) (getQueueState_rl w)
      \<longrightarrow> snd (processNextTask_rl e c during t_done finalNow w) = w
          \<and> fst (processNextTask_rl e c during t_done finalNow w)
               \<in> {Stopped NoTasks, Stopped RateLimited})
   \<and> (queue (getQueueState_cc w) = [] \<or> 6 \<le> length (processing (getQueueState_cc w))
      \<longrightarrow> snd (processNextTask_cc e t during t_done w) = w
          \<and> fst (processNextTask_cc e t during t_done w)
               \<in> {Stopped NoTasks, Stopped MaxConcurrency})"
  by (auto simp add: processNextTask_rl_def processNextTask_start_rl_def
      processNextTask_cc_def processNextTask_start_cc_def
      RATE_LIMIT_REQUESTS_def MAX_CONCURRENCY_def Let_def)

theorem closed_gate_no_write_witness:
  "250 \<le> recentStarts 4000001 (getQueueState_rl (world_of rate_full))
   \<and> processNextTask_rl all_ok (clock_at 4000001) (\<lambda>b. b) 4030001 4030002 (world_of rate_full)
       = (Stopped RateLimited, world_of rate_full)
   \<and> 6 \<le> length (processing (getQueueState_cc (world_of slots_full)))
   \<and> processNextTask_cc all_ok 4000001 (\<lambda>b. b) 4030001 (world_of slots_full)
       = (Stopped MaxConcurrency, world_of slots_full)
   \<and> queue (getQueueState_rl empty_world) = []
   \<and> processNextTask_rl all_ok (clock_at 4000001) (\<lambda>b. b) 4030001 4030002 empty_world
       = (Stopped NoTasks, empty_world)"
  using closed_gate_no_write [where w = "world_of rate_full" and c = "clock_at 4000001"
      and e = all_ok and during = "\<lambda>b. b" and t_done = 4030001 and finalNow = 4030002]
    closed_gate_no_write [where w = "world_of slots_full" and t = 4000001
      and e = all_ok and during = "\<lambda>b. b" and t_done = 4030001]
    closed_gate_no_write [where w = empty_world and c = "clock_at 4000001"
      and e = all_ok and during = "\<lambda>b. b" and t_done = 4030001 and finalNow = 4030002]
  by (simp add: world_of_def empty_world_def rate_full_def slots_full_def clock_at_def
      getQueueState_rl_def getQueueState_cc_def recentStarts_def history_def prod_eq_iff
      emptyState_rl_def processNextTask_rl_def processNextTask_start_rl_def
      processNextTask_cc_def processNextTask_start_cc_def
      RATE_LIMIT_REQUESTS_def MAX_CONCURRENCY_def)

text \<open>
  The names of \<open>Object.prototype\<close> are not identifiers that admission mints: those
  begin with \<open>task-\<close>.
\<close>

lemma minted_not_inherited: "take 5 taskId = ''task-'' \<Longrightarrow> taskId \<notin> set object_prototype"
  by (auto simp add: object_prototype_def)

lemma minted_has_task:
  "take 5 taskId = ''task-'' \<Longrightarrow> has_task state taskId \<longleftrightarrow> tasks state taskId \<noteq> None"
  by (auto simp add: has_task_iff minted_not_inherited)





text \<open>
  How the parts make up the whole turn: a turn that does not start a task ends where its
  first part ends; a turn that starts one goes on to exactly one more call of
  \<open>store.set\<close>, with the completion computed from the state read after the task ran.
\<close>

lemma turn_rl_stops_with_start:
  "\<forall>taskId. fst (processNextTask_start_rl e c w) \<noteq> Started taskId
   \<Longrightarrow> snd (processNextTask_rl e c during t_done finalNow w)
         = snd (processNextTask_start_rl e c w)"
  by (cases "processNextTask_start_rl e c w"; cases "fst (processNextTask_start_rl e c w)")
     (auto simp add: processNextTask_rl_def)

lemma turn_rl_world:
  assumes "processNextTask_start_rl e c w = (Started taskId, w1)"
  shows "snd (processNextTask_rl e c during t_done finalNow w) =
           snd (processNextTask_complete_rl e taskId t_done (w1\<lparr>blob := during (blob w1)\<rparr>))
       \<or> snd (processNextTask_rl e c during t_done finalNow w) =
           snd (processNextTask_retrigger_rl e finalNow
             (snd (processNextTask_complete_rl e taskId t_done (w1\<lparr>blob := during (blob w1)\<rparr>))))"
proof -
  obtain ok w2 where
    compl: "processNextTask_complete_rl e taskId t_done (w1\<lparr>blob := during (blob w1)\<rparr>) = (ok, w2)"
    by (cases "processNextTask_complete_rl e taskId t_done (w1\<lparr>blob := during (blob w1)\<rparr>)")
  show ?thesis
  proof (cases ok)
    case False
    with assms compl show ?thesis by (simp add: processNextTask_rl_def)
  next
    case True
    obtain r w3 where again: "processNextTask_retrigger_rl e finalNow w2 = (r, w3)"
      by (cases "processNextTask_retrigger_rl e finalNow w2")
    show ?thesis
    proof (cases r)
      case None
      with assms compl True again show ?thesis by (simp add: processNextTask_rl_def)
    next
      case (Some sent)
      with assms compl True again show ?thesis
        by (cases sent) (simp_all add: processNextTask_rl_def)
    qed
  qed
qed

lemma retrigger_rl_world:
  "blob (snd (processNextTask_retrigger_rl e finalNow w)) = blob w
   \<and> set_log (snd (processNextTask_retrigger_rl e finalNow w)) = set_log w"
  by (simp add: processNextTask_retrigger_rl_def Let_def client_send_def)

lemma turn_rl_goes_on_after_start:
  assumes "processNextTask_start_rl e c w = (Started taskId, w1)"
  shows "set_log (snd (processNextTask_rl e c during t_done finalNow w))
           = set_log w1 @ [stored (completed_state taskId t_done
                             (getQueueState_rl (w1\<lparr>blob := during (blob w1)\<rparr>)))]"
proof -
  let ?w2 = "snd (processNextTask_complete_rl e taskId t_done (w1\<lparr>blob := during (blob w1)\<rparr>))"
  have "set_log ?w2 = set_log w1 @ [stored (completed_state taskId t_done
                             (getQueueState_rl (w1\<lparr>blob := during (blob w1)\<rparr>)))]"
    by (simp add: processNextTask_complete_rl_def saveQueueState_def store_set_def Let_def)
  with turn_rl_world [OF assms, of during t_done finalNow] retrigger_rl_world [of e finalNow ?w2]
  show ?thesis by auto
qed

section \<open>Status and clear\<close>

lemma min_list_filter_Min:
  "filter P xs \<noteq> [] \<Longrightarrow> min_list (filter P xs) = Min {x \<in> set xs. P x}"
  by (simp add: min_list_Min)

text \<open>
  C6. A GET of the status answers 200 and leaves the world as it was. With \<open>h\<close> the
  history of the state read, \<open>used\<close> is the number of entries of \<open>h\<close> later than
  60000 ms before \<open>t\<close> (counted by position, so equal timestamps count separately),
  \<open>remaining\<close> is \<open>max 0 (250 - used)\<close>, and \<open>resetAt\<close> is the least such entry
  plus 60000 when there is one and null otherwise.
\<close>

theorem status_rate_limit:
  fixes t w
  defines "h \<equiv> history (getQueueState_rl w)"
  defines "inWindow \<equiv> {i. i < length h \<and> t - 60000 < h ! i}"
  shows "\<exists>b. queue_status ''GET'' t w = (S200 b, w)
       \<and> used (rateLimit_r b) = card inWindow
       \<and> remaining (rateLimit_r b) = max 0 (250 - int (card inWindow))
       \<and> resetAt (rateLimit_r b) =
           (if inWindow = {} then None
            else Some (Min {ts \<in> set h. t - 60000 < ts} + 60000))"
proof -
  let ?f = "filter (\<lambda>ts. t - 60000 < ts) h"
  have len: "length ?f = card inWindow"
    unfolding inWindow_def by (simp add: length_filter_conv_card)
  have fin: "finite inWindow" unfolding inWindow_def by simp
  have empty_iff: "inWindow = {} \<longleftrightarrow> ?f = []"
    using len fin by (metis card_0_eq length_0_conv)
  have pos: "?f \<noteq> [] \<Longrightarrow> 0 < length h" by (cases h) auto
  show ?thesis
    using len empty_iff pos min_list_filter_Min [of "\<lambda>ts. t - 60000 < ts" h]
    unfolding h_def
    by (auto simp add: queue_status_def Let_def)
qed

theorem status_rate_limit_witness:
  "queue_status ''GET'' 4000000 (world_of three_starts) =
     (S200 \<lparr>queued_r = [], processing_r = [], completed_r = [],
            stats_r = \<lparr>queuedCount = 0, processingCount = 0, completedCount = 0,
                       totalTasks = 0\<rparr>,
            rateLimit_r = \<lparr>limit = 250, windowSeconds = 60, used = 2, remaining = 248,
                           resetAt = Some 4010000\<rparr>\<rparr>,
      world_of three_starts)
   \<and> card {i. i < length (history (getQueueState_rl (world_of three_starts)))
             \<and> 4000000 - 60000 < history (getQueueState_rl (world_of three_starts)) ! i} = 2"
  using status_rate_limit [where t = 4000000 and w = "world_of three_starts"]
  by (auto simp add: queue_status_def Let_def world_of_def three_starts_def
      getQueueState_rl_def history_def resolve_def last50_def List.map_filter_simps)

text \<open>
  C9. A clear that answers 200 leaves the empty state in the store, whatever was there
  before, and a second clear right after it leaves the same blob as the first, whether
  or not its own write succeeds.
\<close>

theorem clear_idempotent:
  assumes "fst (clear_queue e ''POST'' w) = C200"
  shows "blob (snd (clear_queue e ''POST'' w)) =
           Some \<lparr>queue = [], processing = [], completed = [], tasks = Map.empty,
                 rateLimitHistory = Some []\<rparr>
       \<and> blob (snd (clear_queue e ''POST'' (snd (clear_queue e ''POST'' w)))) =
           blob (snd (clear_queue e ''POST'' w))"
  using assms
  by (auto simp add: clear_queue_def store_set_def Let_def emptyState_rl_def
      split: if_splits)

theorem clear_idempotent_witness:
  "fst (clear_queue all_ok ''POST'' (world_of one_pending)) = C200
   \<and> blob (snd (clear_queue all_ok ''POST'' (world_of one_pending))) =
           Some \<lparr>queue = [], processing = [], completed = [], tasks = Map.empty,
                 rateLimitHistory = Some []\<rparr>
   \<and> blob (snd (clear_queue all_ok ''POST''
              (snd (clear_queue all_ok ''POST'' (world_of one_pending))))) =
           Some \<lparr>queue = [], processing = [], completed = [], tasks = Map.empty,
                 rateLimitHistory = Some []\<rparr>"
  using clear_idempotent [where e = all_ok and w = "world_of one_pending"]
  by (simp add: clear_queue_def store_set_def all_ok_def world_of_def emptyState_rl_def)

section \<open>Admission\<close>

lemma later_fail:
  assumes "\<forall>n<Suc r. \<not> P (k + n)"
  shows "\<forall>n<r. \<not> P (Suc k + n)"
proof (intro allI impI)
  fix n :: nat
  assume "n < r"
  then have "Suc n < Suc r" by simp
  with assms have "\<not> P (k + Suc n)" by blast
  then show "\<not> P (Suc k + n)" by simp
qed

text \<open>
  The retry loop when the next \<open>r\<close> writes fail and an unused identifier is at hand:
  it gives up after \<open>r\<close> calls of \<open>store.set\<close> and the blob is as before. The
  induction is on the retries left and, inside, on the identifiers still to come.
\<close>

lemma queue_loop_cc_all_fail:
  "\<lbrakk>\<forall>n<r. \<not> set_ok e (length (set_log w) + n);
    \<exists>i\<in>set (taskId # ids). \<not> has_task (getQueueState_cc w) i\<rbrakk>
   \<Longrightarrow> \<exists>w'. queue_loop_cc e r ids taskId task w = Some (None, w')
            \<and> blob w' = blob w \<and> sends w' = sends w
            \<and> length (set_log w') = length (set_log w) + r"
proof (induction r arbitrary: w ids taskId task)
  case 0
  then show ?case by simp
next
  case (Suc r)
  from Suc.prems show ?case
  proof (induction ids arbitrary: taskId task)
    case Nil
    then have free: "\<not> has_task (getQueueState_cc w) taskId" by simp
    have nok: "\<not> set_ok e (length (set_log w))" using Nil.prems(1) by force
    let ?st = "enqueue taskId task (getQueueState_cc w)"
    let ?w1 = "w\<lparr>set_log := set_log w @ [stored ?st]\<rparr>"
    have fails': "\<forall>n<r. \<not> set_ok e (length (set_log ?w1) + n)"
      using later_fail [OF Nil.prems(1)] by simp
    have fresh': "\<exists>i\<in>set (taskId # []). \<not> has_task (getQueueState_cc ?w1) i"
      using free by simp
    from Suc.IH [OF fails' fresh', of task] obtain w' where
      "queue_loop_cc e r [] taskId task ?w1 = Some (None, w')"
      "blob w' = blob ?w1" "sends w' = sends ?w1"
      "length (set_log w') = length (set_log ?w1) + r" by blast
    then show ?case using free save_failed [OF nok, of ?st] by (simp add: Let_def)
  next
    case (Cons newId ids')
    show ?case
    proof (cases "\<not> has_task (getQueueState_cc w) taskId")
      case True
      have nok: "\<not> set_ok e (length (set_log w))" using Cons.prems(1) by force
      let ?st = "enqueue taskId task (getQueueState_cc w)"
      let ?w1 = "w\<lparr>set_log := set_log w @ [stored ?st]\<rparr>"
      have fails': "\<forall>n<r. \<not> set_ok e (length (set_log ?w1) + n)"
        using later_fail [OF Cons.prems(1)] by simp
      have fresh': "\<exists>i\<in>set (taskId # newId # ids'). \<not> has_task (getQueueState_cc ?w1) i"
        using True by simp
      from Suc.IH [OF fails' fresh', of task] obtain w' where
        "queue_loop_cc e r (newId # ids') taskId task ?w1 = Some (None, w')"
        "blob w' = blob ?w1" "sends w' = sends ?w1"
        "length (set_log w') = length (set_log ?w1) + r" by blast
      then show ?thesis using True save_failed [OF nok, of ?st] by (simp add: Let_def)
    next
      case False
      then have "\<exists>i\<in>set (newId # ids'). \<not> has_task (getQueueState_cc w) i"
        using Cons.prems(2) by auto
      from Cons.IH [OF Cons.prems(1) this, of "task\<lparr>id_t := newId\<rparr>"]
      show ?thesis using False by (simp add: Let_def)
    qed
  qed
qed

text \<open>
  C5. A POST to the admission endpoint whose five writes all fail, with the generator
  producing at least one identifier for which \<open>state.tasks[taskId]\<close> is falsy (no
  record under it, and not the name of an inherited property), is answered
  with status 500; the blob is as before, so the task is not queued, and no wake signal
  is sent. Unless the body is the JSON value \<open>null\<close>, the error is the one thrown
  after the loop and \<open>store.set\<close> was called five times.
\<close>

theorem admission_all_writes_fail:
  assumes "req_method req = ''POST''"
    and "\<forall>n<5. \<not> set_ok e (length (set_log w) + n)"
    and "\<exists>i\<in>set ids. \<not> has_task (getQueueState_cc w) i"
  shows "\<exists>err w'. queue_task_cc e req ids t w = Some (Q500 err, w')
           \<and> blob w' = blob w \<and> sends w' = sends w
           \<and> (json_body req \<noteq> Some JNull \<longrightarrow>
                err = Error ''Failed to queue task after retries''
                \<and> length (set_log w') = length (set_log w) + 5)"
proof -
  from assms(3) obtain taskId ids' where ids: "ids = taskId # ids'"
    by (cases ids) auto
  let ?body = "case json_body req of None \<Rightarrow> JObj [] | Some v \<Rightarrow> v"
  show ?thesis
  proof (cases "body_data ?body")
    case (Inl err)
    then have "json_body req = Some JNull"
      by (cases "json_body req"; cases ?body) (auto split: option.splits)
    then show ?thesis using assms(1) ids Inl by (simp add: queue_task_cc_def)
  next
    case (Inr d)
    from assms(3) ids have "\<exists>i\<in>set (taskId # ids'). \<not> has_task (getQueueState_cc w) i"
      by simp
    from queue_loop_cc_all_fail [OF assms(2) this, of "new_task taskId t d"]
    obtain w' where "queue_loop_cc e 5 ids' taskId (new_task taskId t d) w = Some (None, w')"
      "blob w' = blob w" "sends w' = sends w" "length (set_log w') = length (set_log w) + 5"
      by blast
    then show ?thesis using assms(1) ids Inr by (simp add: queue_task_cc_def)
  qed
qed

theorem admission_all_writes_fail_witness:
  "req_method (post (Some (JObj [(''data'', JStr ''x'')]))) = ''POST''
   \<and> queue_task_cc fail_all (post (Some (JObj [(''data'', JStr ''x'')])))
        [''task-a'', ''task-b''] 2000 (world_of one_pending)
      = Some (Q500 (Error ''Failed to queue task after retries''),
              (world_of one_pending)\<lparr>set_log := replicate 5
                 (one_pending\<lparr>queue := [''task-a'', ''task-b''],
                    tasks := (tasks one_pending)(''task-b'' \<mapsto>
                       \<lparr>id_t = ''task-b'', status = Queued, createdAt = 2000,
                        startedAt = None, completedAt = None,
                        data = Some (JStr ''x'')\<rparr>)\<rparr>)\<rparr>)"
  using admission_all_writes_fail [where e = fail_all and w = "world_of one_pending"
      and req = "post (Some (JObj [(''data'', JStr ''x'')]))"
      and ids = "[''task-a'', ''task-b'']" and t = 2000]
  by (simp add: post_def fail_all_def world_of_def one_pending_def queue_task_cc_def
      getQueueState_cc_def saveQueueState_def store_set_def new_task_def or_else_def
      enqueue_def has_task_iff object_prototype_def stored_def stored_task_def task_a_def
      numeral_eq_Suc Let_def)

section \<open>Admission: the task that was queued\<close>

lemma same_id: "id_t task = x \<Longrightarrow> task\<lparr>id_t := x\<rparr> = task"
  by (cases task) auto

lemma truthy_the: "truthy d \<Longrightarrow> Some (the d) = d"
  by (cases d) auto

text \<open>
  One pass through the body of the retry loop: the write succeeds, the write fails, or
  the identifier is already taken.
\<close>

lemma queue_loop_cc_saved:
  "\<lbrakk>\<not> has_task (getQueueState_cc w) taskId; set_ok e (length (set_log w))\<rbrakk>
   \<Longrightarrow> queue_loop_cc e (Suc r) ids taskId task w =
         Some (Some (enqueue taskId task (getQueueState_cc w), taskId),
               w\<lparr>blob := Some (stored (enqueue taskId task (getQueueState_cc w))),
                 set_log := set_log w @
                   [stored (enqueue taskId task (getQueueState_cc w))]\<rparr>)"
  by (simp add: Let_def save_ok)

lemma queue_loop_cc_retry:
  "\<lbrakk>\<not> has_task (getQueueState_cc w) taskId; \<not> set_ok e (length (set_log w))\<rbrakk>
   \<Longrightarrow> queue_loop_cc e (Suc r) ids taskId task w =
         queue_loop_cc e r ids taskId task
           (w\<lparr>set_log := set_log w @ [stored (enqueue taskId task (getQueueState_cc w))]\<rparr>)"
  by (simp add: Let_def save_failed)

lemma queue_loop_cc_collision:
  "has_task (getQueueState_cc w) taskId
   \<Longrightarrow> queue_loop_cc e (Suc r) ids taskId task w =
         (case ids of [] \<Rightarrow> None
          | newId # ids' \<Rightarrow> queue_loop_cc e (Suc r) ids' newId (task\<lparr>id_t := newId\<rparr>) w)"
  by (simp add: Let_def)

text \<open>
  A loop that ends with a successful write has queued the task under an identifier for
  which \<open>state.tasks[taskId]\<close> was falsy, and the blob is the state it returns, as
  stored.
\<close>

lemma queue_loop_cc_success:
  "\<lbrakk>queue_loop_cc e r ids taskId task w = Some (Some (st, tid), w'); id_t task = taskId\<rbrakk>
   \<Longrightarrow> \<not> has_task (getQueueState_cc w) tid
     \<and> st = enqueue tid (task\<lparr>id_t := tid\<rparr>) (getQueueState_cc w)
     \<and> blob w' = Some (stored st) \<and> sends w' = sends w"
proof (induction r arbitrary: w ids taskId task)
  case 0
  then show ?case by simp
next
  case (Suc r)
  from Suc.prems show ?case
  proof (induction ids arbitrary: taskId task)
    case Nil
    have free: "\<not> has_task (getQueueState_cc w) taskId"
      using Nil.prems(1) queue_loop_cc_collision [of w taskId e r "[]" task]
      by (cases "has_task (getQueueState_cc w) taskId") auto
    show ?case
    proof (cases "set_ok e (length (set_log w))")
      case True
      from Nil.prems(1) queue_loop_cc_saved [OF free True, of r "[]" task]
      have "st = enqueue taskId task (getQueueState_cc w)" and "tid = taskId"
        and "w' = w\<lparr>blob := Some (stored st), set_log := set_log w @ [stored st]\<rparr>"
        by simp_all
      then show ?thesis using free same_id [OF Nil.prems(2)] by simp
    next
      case False
      from Nil.prems(1) queue_loop_cc_retry [OF free False, of r "[]" task]
      have "queue_loop_cc e r [] taskId task
              (w\<lparr>set_log := set_log w @ [stored (enqueue taskId task (getQueueState_cc w))]\<rparr>)
            = Some (Some (st, tid), w')"
        by simp
      from Suc.IH [OF this Nil.prems(2)] show ?thesis by simp
    qed
  next
    case (Cons newId ids')
    show ?case
    proof (cases "\<not> has_task (getQueueState_cc w) taskId")
      case free: True
      show ?thesis
      proof (cases "set_ok e (length (set_log w))")
        case True
        from Cons.prems(1) queue_loop_cc_saved [OF free True, of r "newId # ids'" task]
        have "st = enqueue taskId task (getQueueState_cc w)" and "tid = taskId"
          and "w' = w\<lparr>blob := Some (stored st), set_log := set_log w @ [stored st]\<rparr>"
          by simp_all
        then show ?thesis using free same_id [OF Cons.prems(2)] by simp
      next
        case False
        from Cons.prems(1) queue_loop_cc_retry [OF free False, of r "newId # ids'" task]
        have "queue_loop_cc e r (newId # ids') taskId task
                (w\<lparr>set_log := set_log w @ [stored (enqueue taskId task (getQueueState_cc w))]\<rparr>)
              = Some (Some (st, tid), w')"
          by simp
        from Suc.IH [OF this Cons.prems(2)] show ?thesis by simp
      qed
    next
      case False
      then have taken: "has_task (getQueueState_cc w) taskId" by simp
      from Cons.prems(1) queue_loop_cc_collision [OF taken, of e r "newId # ids'" task]
      have "queue_loop_cc e (Suc r) ids' newId (task\<lparr>id_t := newId\<rparr>) w
              = Some (Some (st, tid), w')"
        by simp
      from Cons.IH [OF this] show ?thesis by simp
    qed
  qed
qed

lemma set_map_filter:
  "set (List.map_filter f xs) = {y. \<exists>x\<in>set xs. f x = Some y}"
  by (induction xs) (auto simp add: List.map_filter_simps split: option.splits)

lemma queue_task_cc_200:
  assumes "queue_task_cc e req ids t w = Some (Q200 taskId position, w')"
  shows "\<exists>d st. body_data (case json_body req of None \<Rightarrow> JObj [] | Some v \<Rightarrow> v) = Inr d
      \<and> \<not> has_task (getQueueState_cc w) taskId
      \<and> st = enqueue taskId (new_task taskId t d) (getQueueState_cc w)
      \<and> blob w' = Some (stored st) \<and> position = length (queue st)"
proof -
  from assms have post: "req_method req = ''POST''"
    by (auto simp add: queue_task_cc_def split: if_splits)
  from assms post obtain first rest where ids: "ids = first # rest"
    by (cases ids) (auto simp add: queue_task_cc_def)
  let ?body = "case json_body req of None \<Rightarrow> JObj [] | Some v \<Rightarrow> v"
  from assms post ids obtain d where d: "body_data ?body = Inr d"
    by (cases "body_data ?body") (auto simp add: queue_task_cc_def)
  from assms post ids d obtain st w1 where
    loop: "queue_loop_cc e 5 rest first (new_task first t d) w = Some (Some (st, taskId), w1)"
    and pos: "position = length (queue st)"
    and w': "w' = (if length (processing st) < MAX_CONCURRENCY then wake_quietly e w1 else w1)"
    by (auto simp add: queue_task_cc_def split: option.splits prod.splits)
  have "id_t (new_task first t d) = first" by (simp add: new_task_def)
  from queue_loop_cc_success [OF loop this]
  have "\<not> has_task (getQueueState_cc w) taskId"
    and st: "st = enqueue taskId ((new_task first t d)\<lparr>id_t := taskId\<rparr>) (getQueueState_cc w)"
    and "blob w1 = Some (stored st)" by simp_all
  moreover have "(new_task first t d)\<lparr>id_t := taskId\<rparr> = new_task taskId t d"
    by (simp add: new_task_def)
  moreover have "blob w' = blob w1"
    using w' by (simp add: wake_quietly_def client_send_def)
  ultimately show ?thesis using d pos by simp
qed

lemma stored_new_task:
  "stored_task (new_task taskId t d) =
     \<lparr>id_t = taskId, status = Queued, createdAt = t, startedAt = None, completedAt = None,
      data = Some (sanitize (or_else d (JObj [])))\<rparr>"
  by (simp add: stored_task_def new_task_def)

text \<open>
  C7, amended. When admission answers 200 with \<open>taskId\<close> and \<open>position\<close>, a
  status read right after it lists, among the queued tasks, a task with that identifier
  whose payload is the one admission stored: what \<open>JSON.stringify\<close> writes of the
  payload of the request when that is truthy, which is the payload itself unless it
  contains a number that JSON cannot write (a non-finite one, which becomes \<open>null\<close>,
  or \<open>-0\<close>, which becomes \<open>0\<close>); and the empty object when the request carries no
  payload or a falsy one (\<open>null\<close>, \<open>false\<close>, \<open>0\<close>, \<open>-0\<close>, the empty string).
  \<open>position\<close> is the length of the queue after the push, and the identifier is the
  entry at that position, counted from 1.
\<close>

theorem admit_then_status:
  assumes "queue_task_cc e req ids t w = Some (Q200 taskId position, w')"
  shows "\<exists>b task. queue_status ''GET'' t' w' = (S200 b, w')
        \<and> Record task \<in> set (queued_r b) \<and> id_t task = taskId
        \<and> data task = Some (sanitize (or_else (given_payload req) (JObj [])))
        \<and> (\<forall>p. given_payload req = Some p \<and> truthy (Some p) \<and> plain p
               \<longrightarrow> data task = Some p)
        \<and> (\<not> truthy (given_payload req) \<longrightarrow> data task = Some (JObj []))
        \<and> position = length (queue (getQueueState_rl w'))
        \<and> 0 < position \<and> queue (getQueueState_rl w') ! (position - 1) = taskId"
proof -
  let ?body = "case json_body req of None \<Rightarrow> JObj [] | Some v \<Rightarrow> v"
  from queue_task_cc_200 [OF assms] obtain d st where
    d: "body_data ?body = Inr d"
    and st: "st = enqueue taskId (new_task taskId t d) (getQueueState_cc w)"
    and blob: "blob w' = Some (stored st)" and pos: "position = length (queue st)" by blast
  let ?task = "stored_task (new_task taskId t d)"
  have given: "given_payload req = d"
    using d by (cases "json_body req") (auto simp add: given_payload_def)
  have shown: "data ?task = Some (sanitize (or_else d (JObj [])))"
    and id: "id_t ?task = taskId"
    by (simp_all add: stored_new_task)
  have same: "\<And>p. d = Some p \<Longrightarrow> truthy (Some p) \<Longrightarrow> plain p \<Longrightarrow> data ?task = Some p"
    by (simp add: stored_new_task or_else_def sanitize_plain)
  have falsy: "\<not> truthy d \<Longrightarrow> data ?task = Some (JObj [])"
    by (simp add: stored_new_task or_else_def)
  have q: "queue (getQueueState_rl w') = queue st"
    and tk: "tasks (getQueueState_rl w') = stored_tasks (tasks st)"
    using blob by (auto simp add: getQueueState_rl_def split: option.splits)
  have "lookup (getQueueState_rl w') taskId = Some (Record ?task)"
    using tk st by (simp add: lookup_def enqueue_def)
  moreover have "taskId \<in> set (queue st)" using st by (simp add: enqueue_def)
  ultimately have mem:
    "Record ?task \<in> set (resolve (getQueueState_rl w') (queue (getQueueState_rl w')))"
    unfolding resolve_def set_map_filter q by blast
  have at: "position = length (queue (getQueueState_rl w'))" "0 < position"
    "queue (getQueueState_rl w') ! (position - 1) = taskId"
    using q pos st by (simp_all add: enqueue_def)
  obtain b where b: "queue_status ''GET'' t' w' = (S200 b, w')"
    and qb: "queued_r b = resolve (getQueueState_rl w') (queue (getQueueState_rl w'))"
    by (simp add: queue_status_def Let_def)
  show ?thesis
  proof (intro exI conjI allI impI)
    show "queue_status ''GET'' t' w' = (S200 b, w')" by (rule b)
    show "Record ?task \<in> set (queued_r b)" using mem qb by simp
    show "id_t ?task = taskId" by (rule id)
    show "data ?task = Some (sanitize (or_else (given_payload req) (JObj [])))"
      using shown given by simp
    show "data ?task = Some p"
      if "given_payload req = Some p \<and> truthy (Some p) \<and> plain p" for p
      using that given same by simp
    show "data ?task = Some (JObj [])" if "\<not> truthy (given_payload req)"
      using that given falsy by simp
    show "position = length (queue (getQueueState_rl w'))" by (rule at)
    show "0 < position" by (rule at)
    show "queue (getQueueState_rl w') ! (position - 1) = taskId" by (rule at)
  qed
qed

theorem admit_then_status_witness:
  "queue_task_cc all_ok (post (Some (JObj [(''data'', JStr ''x'')]))) [''task-b''] 2000
      (world_of one_pending)
     = Some (Q200 ''task-b'' 2,
             \<lparr>blob = Some (b_queued (JStr ''x'')), set_log = [b_queued (JStr ''x'')],
              sends = 1\<rparr>)
   \<and> given_payload (post (Some (JObj [(''data'', JStr ''x'')]))) = Some (JStr ''x'')
   \<and> truthy (Some (JStr ''x'')) \<and> plain (JStr ''x'')
   \<and> queued_r (case fst (queue_status ''GET'' 2001
         \<lparr>blob = Some (b_queued (JStr ''x'')), set_log = [b_queued (JStr ''x'')],
          sends = 1\<rparr>) of
           S200 b \<Rightarrow> b) = [Record task_a, Record (task_b (JStr ''x''))]"
  using admit_then_status [where e = all_ok and w = "world_of one_pending"
      and req = "post (Some (JObj [(''data'', JStr ''x'')]))" and ids = "[''task-b'']"
      and t = 2000 and t' = 2001 and taskId = "''task-b''" and position = 2
      and w' = "\<lparr>blob = Some (b_queued (JStr ''x'')), set_log = [b_queued (JStr ''x'')],
                 sends = 1\<rparr>"]
  by (simp add: post_def all_ok_def world_of_def one_pending_def queue_task_cc_def
      getQueueState_cc_def getQueueState_rl_def saveQueueState_def store_set_def new_task_def
      or_else_def enqueue_def numeral_eq_Suc Let_def b_queued_def task_b_def task_a_def
      MAX_CONCURRENCY_def wake_quietly_def client_send_def given_payload_def
      queue_status_def resolve_def lookup_def List.map_filter_simps
      has_task_iff object_prototype_def stored_def stored_task_def)

text \<open>
  C7 as stated fails for a falsy payload and for a payload that JSON cannot write. A
  request with \<open>{"data": 0}\<close> is admitted, its payload is \<open>0\<close>, and the status
  read after it shows the task with the payload \<open>{}\<close>: \<open>body.data || {}\<close> replaces
  every falsy value. A request with \<open>{"data": 1e400}\<close> is admitted, its payload is
  \<open>Infinity\<close>, which is truthy, and the status shows the task with the payload
  \<open>null\<close>: that is what \<open>JSON.stringify\<close> wrote to the store.
\<close>

theorem payload_roundtrip_counterexample:
  "queue_task_cc all_ok (post (Some (JObj [(''data'', JNum 0)]))) [''task-b''] 2000
      (world_of one_pending)
     = Some (Q200 ''task-b'' 2,
             \<lparr>blob = Some (b_queued (JObj [])), set_log = [b_queued (JObj [])], sends = 1\<rparr>)
   \<and> given_payload (post (Some (JObj [(''data'', JNum 0)]))) = Some (JNum 0)
   \<and> map (\<lambda>x. case x of Record task \<Rightarrow> data task)
        (queued_r (case fst (queue_status ''GET'' 2001
           \<lparr>blob = Some (b_queued (JObj [])), set_log = [b_queued (JObj [])], sends = 1\<rparr>) of
             S200 b \<Rightarrow> b)) = [Some (JObj []), Some (JObj [])]
   \<and> queue_task_cc all_ok (post (Some (JObj [(''data'', JInf True)]))) [''task-b''] 2000
      (world_of one_pending)
     = Some (Q200 ''task-b'' 2,
             \<lparr>blob = Some (b_queued JNull), set_log = [b_queued JNull], sends = 1\<rparr>)
   \<and> given_payload (post (Some (JObj [(''data'', JInf True)]))) = Some (JInf True)
   \<and> truthy (Some (JInf True))
   \<and> map (\<lambda>x. case x of Record task \<Rightarrow> data task)
        (queued_r (case fst (queue_status ''GET'' 2001
           \<lparr>blob = Some (b_queued JNull), set_log = [b_queued JNull], sends = 1\<rparr>) of
             S200 b \<Rightarrow> b)) = [Some (JObj []), Some JNull]"
  by (simp add: post_def all_ok_def world_of_def one_pending_def queue_task_cc_def
      getQueueState_cc_def getQueueState_rl_def saveQueueState_def store_set_def new_task_def
      or_else_def enqueue_def numeral_eq_Suc Let_def b_queued_def task_b_def task_a_def
      MAX_CONCURRENCY_def wake_quietly_def client_send_def given_payload_def
      queue_status_def resolve_def lookup_def List.map_filter_simps
      has_task_iff object_prototype_def stored_def stored_task_def)

text \<open>
  C10. A POST whose body is the JSON text \<open>null\<close> parses, so the \<open>catch\<close> that
  substitutes \<open>{}\<close> for an unreadable body does not run; \<open>body.data\<close> then throws a
  TypeError, the outer \<open>catch\<close> answers 500, and no task is queued. Both versions of
  the endpoint behave so.
\<close>

theorem null_body_rejected:
  "queue_task_cc all_ok (post (Some JNull)) [''task-b''] 2000 (world_of one_pending)
     = Some (Q500 TypeError, world_of one_pending)
   \<and> queue_task_rl all_ok (post (Some JNull)) [''task-b''] 2000 (world_of one_pending)
     = Some (Q500 TypeError, world_of one_pending)"
  by (simp add: post_def queue_task_cc_def queue_task_rl_def)

text \<open>
  For every other body the defaulting works: a POST whose body is not \<open>null\<close> and
  carries no payload or a falsy one is admitted, when the write succeeds, with the
  payload \<open>{}\<close>.
\<close>

lemma falsy_payload_defaults:
  assumes "req_method req = ''POST''" and "json_body req \<noteq> Some JNull"
    and "\<not> truthy (given_payload req)"
    and "set_ok e (length (set_log w))" and "\<not> has_task (getQueueState_cc w) taskId"
  shows "\<exists>w'. queue_task_cc e req (taskId # ids) t w
                 = Some (Q200 taskId (Suc (length (queue (getQueueState_cc w)))), w')
             \<and> blob w' = Some (stored (enqueue taskId
                  \<lparr>id_t = taskId, status = Queued, createdAt = t, startedAt = None,
                   completedAt = None, data = Some (JObj [])\<rparr> (getQueueState_cc w)))"
proof -
  let ?body = "case json_body req of None \<Rightarrow> JObj [] | Some v \<Rightarrow> v"
  from assms(2) obtain d where d: "body_data ?body = Inr d"
    by (cases "json_body req"; cases ?body) auto
  then have "given_payload req = d"
    by (cases "json_body req") (auto simp add: given_payload_def)
  with assms(3) have task: "new_task taskId t d =
      \<lparr>id_t = taskId, status = Queued, createdAt = t, startedAt = None,
       completedAt = None, data = Some (JObj [])\<rparr>"
    by (simp add: new_task_def or_else_def)
  show ?thesis
    using assms(1) d task queue_loop_cc_saved [OF assms(5) assms(4), of 4 ids "new_task taskId t d"]
    by (simp add: queue_task_cc_def numeral_eq_Suc wake_quietly_def client_send_def enqueue_def)
qed

section \<open>Writes and retries\<close>

text \<open>
  C3. The dispatcher writes without a retry. With a store whose first \<open>set\<close> fails
  and whose later ones would succeed, the turn calls \<open>store.set\<close> once and the
  rejection ends it: the blob is as before and nothing is tried again. With a store whose
  second \<open>set\<close> fails, the task is claimed and the completion write is lost in the
  same way, so the task stays in \<open>processing\<close>. Admission under the first store
  succeeds at its second attempt.
\<close>

theorem dispatcher_write_not_retried:
  "processNextTask_rl fail_first (clock_at 4000001) (\<lambda>b. b) 4030001 4030002 (world_of one_pending)
     = (Rejected_at_start, \<lparr>blob = Some one_pending, set_log = [a_claimed], sends = 0\<rparr>)
   \<and> processNextTask_rl fail_second (clock_at 4000001) (\<lambda>b. b) 4030001 4030002 (world_of one_pending)
     = (Rejected_at_completion ''task-a'',
        \<lparr>blob = Some a_claimed, set_log = [a_claimed, a_completed], sends = 0\<rparr>)
   \<and> queue_task_cc fail_first (post None) [''task-b''] 2000 (world_of one_pending)
     = Some (Q200 ''task-b'' 2,
             \<lparr>blob = Some (b_queued (JObj [])),
              set_log = [b_queued (JObj []), b_queued (JObj [])], sends = 1\<rparr>)"
  by (simp add: processNextTask_rl_def processNextTask_start_rl_def
      processNextTask_complete_rl_def completed_state_def claimed_rl_def
      fail_first_def fail_second_def clock_at_def world_of_def one_pending_def
      a_claimed_def a_completed_def getQueueState_rl_def getQueueState_cc_def recentStarts_def
      history_def RATE_LIMIT_REQUESTS_def saveQueueState_def store_set_def Let_def
      post_def queue_task_cc_def new_task_def or_else_def enqueue_def numeral_eq_Suc
      b_queued_def task_b_def task_a_def MAX_CONCURRENCY_def wake_quietly_def client_send_def
      has_task_iff mark_def object_prototype_def stored_def stored_task_def)

text \<open>
  The retry loop of the rate-limited admission; its state is the one read before the
  loop.
\<close>

lemma queue_loop_rl_saved:
  "\<lbrakk>\<not> has_task (getQueueState_rl w) taskId; set_ok e (length (set_log w))\<rbrakk>
   \<Longrightarrow> queue_loop_rl e (Suc r) ids taskId task state w =
         Some (Some ((enqueue taskId task (getQueueState_rl w))
                       \<lparr>rateLimitHistory := rateLimitHistory state\<rparr>, taskId),
               w\<lparr>blob := Some (stored ((enqueue taskId task (getQueueState_rl w))
                                  \<lparr>rateLimitHistory := rateLimitHistory state\<rparr>)),
                 set_log := set_log w @ [stored ((enqueue taskId task (getQueueState_rl w))
                                           \<lparr>rateLimitHistory := rateLimitHistory state\<rparr>)]\<rparr>)"
  by (simp add: Let_def save_ok)

lemma queue_loop_rl_retry:
  "\<lbrakk>\<not> has_task (getQueueState_rl w) taskId; \<not> set_ok e (length (set_log w))\<rbrakk>
   \<Longrightarrow> queue_loop_rl e (Suc r) ids taskId task state w =
         queue_loop_rl e r ids taskId task state
           (w\<lparr>set_log := set_log w @ [stored ((enqueue taskId task (getQueueState_rl w))
                                        \<lparr>rateLimitHistory := rateLimitHistory state\<rparr>)]\<rparr>)"
  by (simp add: Let_def save_failed)

lemma queue_loop_rl_collision:
  "has_task (getQueueState_rl w) taskId
   \<Longrightarrow> queue_loop_rl e (Suc r) ids taskId task state w =
         (case ids of [] \<Rightarrow> None
          | newId # ids' \<Rightarrow> queue_loop_rl e (Suc r) ids' newId (task\<lparr>id_t := newId\<rparr>) state w)"
  by (simp add: Let_def)

text \<open>
  What the loop writes takes \<open>rateLimitHistory\<close> from the copy read before the loop.
  Here that copy is \<open>one_pending\<close> and the store has moved on to \<open>a_claimed\<close>: the
  write puts the history \<open>[5, 4000000]\<close> back and the start at 4000001 is gone.
\<close>

lemma admission_rl_writes_first_copy:
  "queue_loop_rl all_ok 5 [] ''task-b'' (task_b (JObj [])) one_pending (world_of a_claimed)
     = Some (Some (a_claimed\<lparr>queue := [''task-b''],
                            tasks := (tasks a_claimed)(''task-b'' \<mapsto> task_b (JObj [])),
                            rateLimitHistory := Some [5, 4000000]\<rparr>, ''task-b''),
             \<lparr>blob = Some (a_claimed\<lparr>queue := [''task-b''],
                            tasks := (tasks a_claimed)(''task-b'' \<mapsto> task_b (JObj [])),
                            rateLimitHistory := Some [5, 4000000]\<rparr>),
              set_log = [a_claimed\<lparr>queue := [''task-b''],
                            tasks := (tasks a_claimed)(''task-b'' \<mapsto> task_b (JObj [])),
                            rateLimitHistory := Some [5, 4000000]\<rparr>],
              sends = 0\<rparr>)"
  by (simp add: numeral_eq_Suc Let_def all_ok_def world_of_def a_claimed_def one_pending_def
      getQueueState_rl_def saveQueueState_def store_set_def enqueue_def task_b_def task_a_def
      has_task_iff mark_def object_prototype_def stored_def stored_task_def)

section \<open>The invariants\<close>

lemma sound_read_cc: "holds_in sound w \<Longrightarrow> sound (getQueueState_cc w)"
  by (auto simp add: holds_in_def getQueueState_cc_def emptyState_cc_def sound_def
      invariant_def no_repeats_def listed_def split: option.splits)

lemma sound_read_rl: "holds_in sound w \<Longrightarrow> sound (getQueueState_rl w)"
  by (auto simp add: holds_in_def getQueueState_rl_def emptyState_rl_def sound_def
      invariant_def no_repeats_def listed_def split: option.splits)

lemma holds_in_log [simp]: "holds_in P (w\<lparr>set_log := l\<rparr>) = holds_in P w"
  by (simp add: holds_in_def)

lemma holds_in_sends [simp]: "holds_in P (w\<lparr>sends := n\<rparr>) = holds_in P w"
  by (simp add: holds_in_def)

lemma holds_in_blob [simp]: "holds_in P (w\<lparr>blob := Some s\<rparr>) = P s"
  by (simp add: holds_in_def)

text \<open>
  Soundness is about the lists and about which identifiers have a record; writing a
  state to the store and marking a task change neither.
\<close>

lemma sound_stored [simp]: "sound (stored s) = sound s"
  by (simp add: sound_def invariant_def no_repeats_def listed_def)

lemma mark_fields [simp]:
  "queue (mark k f s) = queue s" "processing (mark k f s) = processing s"
  "completed (mark k f s) = completed s" "rateLimitHistory (mark k f s) = rateLimitHistory s"
  "tasks (mark k f s) i = None \<longleftrightarrow> tasks s i = None"
  by (simp_all add: mark_def split: option.splits)

lemma sound_mark [simp]: "sound (mark k f s) = sound s"
  by (simp add: sound_def invariant_def no_repeats_def listed_def)

lemma holds_in_save:
  "\<lbrakk>holds_in sound w; sound s\<rbrakk> \<Longrightarrow> holds_in sound (snd (saveQueueState e s w))"
  by (simp add: saveQueueState_def store_set_def Let_def holds_in_def)

lemma sound_enqueue:
  assumes "sound s" and "\<not> has_task s taskId"
  shows "sound (enqueue taskId task s)"
proof -
  from assms(2) have "tasks s taskId = None" by (simp add: has_task_iff)
  with assms(1) have "taskId \<notin> listed s"
    by (auto simp add: sound_def invariant_def)
  with assms(1) show ?thesis
    by (auto simp add: sound_def invariant_def no_repeats_def listed_def enqueue_def)
qed

lemma sound_history [simp]: "sound (s\<lparr>rateLimitHistory := h\<rparr>) = sound s"
  by (simp add: sound_def invariant_def no_repeats_def listed_def)

lemma sound_shift_claim:
  assumes "sound s" and "queue s \<noteq> []"
  shows "sound ((mark (hd (queue s)) f (s\<lparr>queue := tl (queue s)\<rparr>))
                  \<lparr>processing := processing s @ [hd (queue s)]\<rparr>)"
proof -
  from assms(2) obtain a rest where q: "queue s = a # rest" by (cases "queue s") auto
  with assms(1) show ?thesis
    by (auto simp add: sound_def invariant_def no_repeats_def listed_def)
qed

lemma sound_claimed_rl:
  "\<lbrakk>sound s; queue s \<noteq> []\<rbrakk>
   \<Longrightarrow> sound (claimed_rl c (hd (queue s)) (s\<lparr>queue := tl (queue s)\<rparr>))"
  using sound_shift_claim [of s]
  by (simp add: claimed_rl_def Let_def)

lemma sound_claimed_cc:
  "\<lbrakk>sound s; queue s \<noteq> []\<rbrakk>
   \<Longrightarrow> sound (claimed_cc t (hd (queue s)) (s\<lparr>queue := tl (queue s)\<rparr>))"
  using sound_shift_claim [of s]
  by (simp add: claimed_cc_def)

lemma sound_completed_state:
  assumes "sound s" and "taskId \<in> set (processing s)"
  shows "sound (completed_state taskId t s)"
proof -
  from assms have rec: "tasks s taskId \<noteq> None"
    by (auto simp add: sound_def invariant_def listed_def)
  then have found: "has_task (s\<lparr>processing := remove1 taskId (processing s)\<rparr>) taskId"
    by (simp add: has_task_iff)
  from assms have out: "taskId \<notin> set (queue s)" "taskId \<notin> set (completed s)"
    by (auto simp add: sound_def invariant_def)
  from assms have gone: "taskId \<notin> set (remove1 taskId (processing s))"
    by (simp add: sound_def no_repeats_def)
  have sub: "set (remove1 taskId (processing s)) \<subseteq> set (processing s)"
    by (rule set_remove1_subset)
  from assms(1) rec found out gone sub show ?thesis
    by (auto simp add: completed_state_def Let_def sound_def invariant_def no_repeats_def
        listed_def)
qed

text \<open>
  The first part of a turn leaves the world as it was or makes one call of
  \<open>saveQueueState\<close> with the claimed state.
\<close>

lemma start_rl_world:
  "snd (processNextTask_start_rl e c w) = w
   \<or> (queue (getQueueState_rl w) \<noteq> []
      \<and> snd (processNextTask_start_rl e c w) =
            snd (saveQueueState e
                  (claimed_rl c (hd (queue (getQueueState_rl w)))
                     ((getQueueState_rl w)\<lparr>queue := tl (queue (getQueueState_rl w))\<rparr>)) w))"
proof (cases "queue (getQueueState_rl w) = []
    \<or> RATE_LIMIT_REQUESTS \<le> recentStarts (now c) (getQueueState_rl w)
    \<or> \<not> has_task ((getQueueState_rl w)\<lparr>queue := tl (queue (getQueueState_rl w))\<rparr>)
          (hd (queue (getQueueState_rl w)))")
  case True
  then show ?thesis by (auto simp add: processNextTask_start_rl_def Let_def)
next
  case False
  let ?s = "claimed_rl c (hd (queue (getQueueState_rl w)))
              ((getQueueState_rl w)\<lparr>queue := tl (queue (getQueueState_rl w))\<rparr>)"
  have "snd (processNextTask_start_rl e c w) = snd (saveQueueState e ?s w)"
    using False
    by (cases "saveQueueState e ?s w"; cases "fst (saveQueueState e ?s w)")
       (auto simp add: processNextTask_start_rl_def Let_def)
  with False show ?thesis by blast
qed

lemma start_cc_world:
  "snd (processNextTask_start_cc e t w) = w
   \<or> (queue (getQueueState_cc w) \<noteq> []
      \<and> snd (processNextTask_start_cc e t w) =
            snd (saveQueueState e
                  (claimed_cc t (hd (queue (getQueueState_cc w)))
                     ((getQueueState_cc w)\<lparr>queue := tl (queue (getQueueState_cc w))\<rparr>)) w))"
proof (cases "MAX_CONCURRENCY \<le> length (processing (getQueueState_cc w))
    \<or> queue (getQueueState_cc w) = []
    \<or> \<not> has_task ((getQueueState_cc w)\<lparr>queue := tl (queue (getQueueState_cc w))\<rparr>)
          (hd (queue (getQueueState_cc w)))")
  case True
  then show ?thesis by (auto simp add: processNextTask_start_cc_def Let_def)
next
  case False
  let ?s = "claimed_cc t (hd (queue (getQueueState_cc w)))
              ((getQueueState_cc w)\<lparr>queue := tl (queue (getQueueState_cc w))\<rparr>)"
  have "snd (processNextTask_start_cc e t w) = snd (saveQueueState e ?s w)"
    using False
    by (cases "saveQueueState e ?s w"; cases "fst (saveQueueState e ?s w)")
       (auto simp add: processNextTask_start_cc_def Let_def)
  with False show ?thesis by blast
qed

lemma start_rl_sound:
  assumes "holds_in sound w"
  shows "holds_in sound (snd (processNextTask_start_rl e c w))"
  using start_rl_world [of e c w] assms
    holds_in_save [OF assms sound_claimed_rl [OF sound_read_rl [OF assms]]]
  by auto

lemma start_cc_sound:
  assumes "holds_in sound w"
  shows "holds_in sound (snd (processNextTask_start_cc e t w))"
  using start_cc_world [of e t w] assms
    holds_in_save [OF assms sound_claimed_cc [OF sound_read_cc [OF assms]]]
  by auto

lemma processing_read: "processing (getQueueState_rl w) = processing (getQueueState_cc w)"
  by (simp add: getQueueState_rl_def getQueueState_cc_def emptyState_rl_def emptyState_cc_def
      split: option.splits)

lemma complete_rl_sound:
  assumes "holds_in sound w" and "taskId \<in> set (processing (getQueueState_rl w))"
  shows "holds_in sound (snd (processNextTask_complete_rl e taskId t w))"
  unfolding processNextTask_complete_rl_def
  by (rule holds_in_save [OF assms(1) sound_completed_state [OF sound_read_rl [OF assms(1)] assms(2)]])

lemma complete_cc_sound:
  assumes "holds_in sound w" and "taskId \<in> set (processing (getQueueState_cc w))"
  shows "holds_in sound (snd (processNextTask_complete_cc e taskId t w))"
  unfolding processNextTask_complete_cc_def
  by (rule holds_in_save [OF assms(1) sound_completed_state [OF sound_read_cc [OF assms(1)] assms(2)]])

lemma clear_sound: "holds_in sound w \<Longrightarrow> holds_in sound (snd (clear_queue e m w))"
  by (auto simp add: clear_queue_def store_set_def Let_def holds_in_def emptyState_rl_def
      sound_def invariant_def no_repeats_def listed_def stored_def split: option.splits)

lemma queue_loop_cc_sound:
  "\<lbrakk>queue_loop_cc e r ids taskId task w = Some (res, w'); holds_in sound w\<rbrakk>
   \<Longrightarrow> holds_in sound w'"
proof (induction r arbitrary: w ids taskId task)
  case 0
  then show ?case by simp
next
  case (Suc r)
  from Suc.prems show ?case
  proof (induction ids arbitrary: taskId task)
    case Nil
    have free: "\<not> has_task (getQueueState_cc w) taskId"
      using Nil.prems(1) queue_loop_cc_collision [of w taskId e r "[]" task]
      by (cases "has_task (getQueueState_cc w) taskId") auto
    show ?case
    proof (cases "set_ok e (length (set_log w))")
      case True
      from Nil.prems(1) queue_loop_cc_saved [OF free True, of r "[]" task]
      have "blob w' = Some (stored (enqueue taskId task (getQueueState_cc w)))"
        by auto
      then show ?thesis using sound_enqueue [OF sound_read_cc [OF Nil.prems(2)] free, of task]
        by (simp add: holds_in_def)
    next
      case False
      from Nil.prems(1) queue_loop_cc_retry [OF free False, of r "[]" task]
      have "queue_loop_cc e r [] taskId task
              (w\<lparr>set_log := set_log w @ [stored (enqueue taskId task (getQueueState_cc w))]\<rparr>)
            = Some (res, w')"
        by simp
      from Suc.IH [OF this] Nil.prems(2) show ?thesis by simp
    qed
  next
    case (Cons newId ids')
    show ?case
    proof (cases "\<not> has_task (getQueueState_cc w) taskId")
      case free: True
      show ?thesis
      proof (cases "set_ok e (length (set_log w))")
        case True
        from Cons.prems(1) queue_loop_cc_saved [OF free True, of r "newId # ids'" task]
        have "blob w' = Some (stored (enqueue taskId task (getQueueState_cc w)))"
          by auto
        then show ?thesis using sound_enqueue [OF sound_read_cc [OF Cons.prems(2)] free, of task]
          by (simp add: holds_in_def)
      next
        case False
        from Cons.prems(1) queue_loop_cc_retry [OF free False, of r "newId # ids'" task]
        have "queue_loop_cc e r (newId # ids') taskId task
                (w\<lparr>set_log := set_log w @ [stored (enqueue taskId task (getQueueState_cc w))]\<rparr>)
              = Some (res, w')"
          by simp
        from Suc.IH [OF this] Cons.prems(2) show ?thesis by simp
      qed
    next
      case False
      then have taken: "has_task (getQueueState_cc w) taskId" by simp
      from Cons.prems(1) queue_loop_cc_collision [OF taken, of e r "newId # ids'" task]
      have "queue_loop_cc e (Suc r) ids' newId (task\<lparr>id_t := newId\<rparr>) w = Some (res, w')"
        by simp
      from Cons.IH [OF this Cons.prems(2)] show ?thesis .
    qed
  qed
qed

lemma queue_task_cc_sound:
  assumes "queue_task_cc e req ids t w = Some (r, w')" and "holds_in sound w"
  shows "holds_in sound w'"
proof (cases "req_method req = ''POST''")
  case False
  with assms show ?thesis by (simp add: queue_task_cc_def)
next
  case True
  with assms(1) obtain taskId ids' where ids: "ids = taskId # ids'"
    by (cases ids) (auto simp add: queue_task_cc_def)
  let ?body = "case json_body req of None \<Rightarrow> JObj [] | Some v \<Rightarrow> v"
  show ?thesis
  proof (cases "body_data ?body")
    case (Inl err)
    with assms True ids show ?thesis by (simp add: queue_task_cc_def)
  next
    case (Inr d)
    with assms(1) True ids obtain res w1 where
      loop: "queue_loop_cc e 5 ids' taskId (new_task taskId t d) w = Some (res, w1)"
      and w': "w' = w1 \<or> w' = wake_quietly e w1"
      by (auto simp add: queue_task_cc_def split: option.splits if_splits)
    from queue_loop_cc_sound [OF loop assms(2)] w' show ?thesis
      by (auto simp add: wake_quietly_def client_send_def)
  qed
qed

lemma queue_loop_rl_sound:
  "\<lbrakk>queue_loop_rl e r ids taskId task state w = Some (res, w'); holds_in sound w\<rbrakk>
   \<Longrightarrow> holds_in sound w'"
proof (induction r arbitrary: w ids taskId task)
  case 0
  then show ?case by simp
next
  case (Suc r)
  from Suc.prems show ?case
  proof (induction ids arbitrary: taskId task)
    case Nil
    have free: "\<not> has_task (getQueueState_rl w) taskId"
      using Nil.prems(1) queue_loop_rl_collision [of w taskId e r "[]" task state]
      by (cases "has_task (getQueueState_rl w) taskId") auto
    show ?case
    proof (cases "set_ok e (length (set_log w))")
      case True
      from Nil.prems(1) queue_loop_rl_saved [OF free True, of r "[]" task state]
      have "blob w' = Some (stored ((enqueue taskId task (getQueueState_rl w))
                              \<lparr>rateLimitHistory := rateLimitHistory state\<rparr>))"
        by auto
      then show ?thesis using sound_enqueue [OF sound_read_rl [OF Nil.prems(2)] free, of task]
        by (simp add: holds_in_def)
    next
      case False
      from Nil.prems(1) queue_loop_rl_retry [OF free False, of r "[]" task state]
      have "queue_loop_rl e r [] taskId task state
              (w\<lparr>set_log := set_log w @ [stored ((enqueue taskId task (getQueueState_rl w))
                                           \<lparr>rateLimitHistory := rateLimitHistory state\<rparr>)]\<rparr>)
            = Some (res, w')"
        by simp
      from Suc.IH [OF this] Nil.prems(2) show ?thesis by simp
    qed
  next
    case (Cons newId ids')
    show ?case
    proof (cases "\<not> has_task (getQueueState_rl w) taskId")
      case free: True
      show ?thesis
      proof (cases "set_ok e (length (set_log w))")
        case True
        from Cons.prems(1) queue_loop_rl_saved [OF free True, of r "newId # ids'" task state]
        have "blob w' = Some (stored ((enqueue taskId task (getQueueState_rl w))
                                \<lparr>rateLimitHistory := rateLimitHistory state\<rparr>))"
          by auto
        then show ?thesis using sound_enqueue [OF sound_read_rl [OF Cons.prems(2)] free, of task]
          by (simp add: holds_in_def)
      next
        case False
        from Cons.prems(1) queue_loop_rl_retry [OF free False, of r "newId # ids'" task state]
        have "queue_loop_rl e r (newId # ids') taskId task state
                (w\<lparr>set_log := set_log w @ [stored ((enqueue taskId task (getQueueState_rl w))
                                             \<lparr>rateLimitHistory := rateLimitHistory state\<rparr>)]\<rparr>)
              = Some (res, w')"
          by simp
        from Suc.IH [OF this] Cons.prems(2) show ?thesis by simp
      qed
    next
      case False
      then have taken: "has_task (getQueueState_rl w) taskId" by simp
      from Cons.prems(1) queue_loop_rl_collision [OF taken, of e r "newId # ids'" task state]
      have "queue_loop_rl e (Suc r) ids' newId (task\<lparr>id_t := newId\<rparr>) state w = Some (res, w')"
        by simp
      from Cons.IH [OF this Cons.prems(2)] show ?thesis .
    qed
  qed
qed

lemma queue_task_rl_sound:
  assumes "queue_task_rl e req ids t w = Some (r, w')" and "holds_in sound w"
  shows "holds_in sound w'"
proof (cases "req_method req = ''POST''")
  case False
  with assms show ?thesis by (simp add: queue_task_rl_def)
next
  case True
  with assms(1) obtain taskId ids' where ids: "ids = taskId # ids'"
    by (cases ids) (auto simp add: queue_task_rl_def)
  let ?body = "case json_body req of None \<Rightarrow> JObj [] | Some v \<Rightarrow> v"
  show ?thesis
  proof (cases "body_data ?body")
    case (Inl err)
    with assms True ids show ?thesis by (simp add: queue_task_rl_def)
  next
    case (Inr d)
    with assms(1) True ids obtain res w1 where
      loop: "queue_loop_rl e 5 ids' taskId (new_task taskId t d) (getQueueState_rl w) w
               = Some (res, w1)"
      and w': "w' = w1 \<or> w' = wake_quietly e w1"
      by (auto simp add: queue_task_rl_def split: option.splits if_splits)
    from queue_loop_rl_sound [OF loop assms(2)] w' show ?thesis
      by (auto simp add: wake_quietly_def client_send_def)
  qed
qed

text \<open>
  A task that a turn has started is in \<open>processing\<close> in the state the turn wrote, so
  a turn during which no other function writes keeps the stored state sound.
\<close>

lemma start_keeps_claimed_in_processing:
  assumes "processNextTask_start_rl e c w = (Started taskId, w1)"
  shows "taskId \<in> set (processing (getQueueState_rl w1))"
proof -
  let ?s = "claimed_rl c taskId
              ((getQueueState_rl w)\<lparr>queue := tl (queue (getQueueState_rl w))\<rparr>)"
  from assms have "saveQueueState e ?s w = (True, w1)"
    by (auto simp add: processNextTask_start_rl_def Let_def
        split: if_splits prod.splits bool.splits)
  then have "blob w1 = Some (stored ?s)"
    by (auto simp add: saveQueueState_def store_set_def Let_def split: if_splits)
  then show ?thesis
    by (simp add: getQueueState_rl_def claimed_rl_def Let_def)
qed

lemma undisturbed_turn_rl_sound:
  assumes "holds_in sound w"
  shows "holds_in sound (snd (processNextTask_rl e c (\<lambda>b. b) t_done finalNow w))"
proof (cases "\<exists>taskId. fst (processNextTask_start_rl e c w) = Started taskId")
  case False
  then show ?thesis
    using turn_rl_stops_with_start [of e c w "\<lambda>b. b" t_done finalNow] start_rl_sound [OF assms, of e c]
    by simp
next
  case True
  then obtain taskId w1 where start: "processNextTask_start_rl e c w = (Started taskId, w1)"
    by (cases "processNextTask_start_rl e c w") auto
  let ?w2 = "snd (processNextTask_complete_rl e taskId t_done w1)"
  have s1: "holds_in sound w1" using start_rl_sound [OF assms, of e c] start by simp
  have s2: "holds_in sound ?w2"
    by (rule complete_rl_sound [OF s1 start_keeps_claimed_in_processing [OF start]])
  then have "holds_in sound (snd (processNextTask_retrigger_rl e finalNow ?w2))"
    using retrigger_rl_world [of e finalNow ?w2] by (simp add: holds_in_def)
  with s2 turn_rl_world [OF start, of "\<lambda>b. b" t_done finalNow] show ?thesis by auto
qed

text \<open>
  C4, amended. If the stored state satisfies both invariants and no list holds an
  identifier twice, then the same is true of the stored state after admission (either
  version, whatever it answers), after the first part of a dispatch turn (either
  dispatcher), after clear, after the completion of an identifier that is in
  \<open>processing\<close> in the state the completion reads, and so after a whole turn during
  which no other function writes.
\<close>

theorem invariant_kept:
  assumes "holds_in sound w"
  shows "(\<forall>r w'. queue_task_cc e req ids t w = Some (r, w') \<longrightarrow> holds_in sound w')
       \<and> (\<forall>r w'. queue_task_rl e req ids t w = Some (r, w') \<longrightarrow> holds_in sound w')
       \<and> holds_in sound (snd (processNextTask_start_rl e c w))
       \<and> holds_in sound (snd (processNextTask_start_cc e t w))
       \<and> (taskId \<in> set (processing (getQueueState_cc w)) \<longrightarrow>
            holds_in sound (snd (processNextTask_complete_rl e taskId t w))
            \<and> holds_in sound (snd (processNextTask_complete_cc e taskId t w)))
       \<and> holds_in sound (snd (processNextTask_rl e c (\<lambda>b. b) t_done finalNow w))
       \<and> holds_in sound (snd (clear_queue e m w))"
proof (intro conjI allI impI)
  fix r w' assume "queue_task_cc e req ids t w = Some (r, w')"
  then show "holds_in sound w'" using assms by (rule queue_task_cc_sound)
next
  fix r w' assume "queue_task_rl e req ids t w = Some (r, w')"
  then show "holds_in sound w'" using assms by (rule queue_task_rl_sound)
next
  show "holds_in sound (snd (processNextTask_start_rl e c w))"
    using assms by (rule start_rl_sound)
next
  show "holds_in sound (snd (processNextTask_start_cc e t w))"
    using assms by (rule start_cc_sound)
next
  assume "taskId \<in> set (processing (getQueueState_cc w))"
  then show "holds_in sound (snd (processNextTask_complete_rl e taskId t w))"
    using assms by (simp add: complete_rl_sound processing_read)
next
  assume "taskId \<in> set (processing (getQueueState_cc w))"
  then show "holds_in sound (snd (processNextTask_complete_cc e taskId t w))"
    using assms by (simp add: complete_cc_sound)
next
  show "holds_in sound (snd (processNextTask_rl e c (\<lambda>b. b) t_done finalNow w))"
    using assms by (rule undisturbed_turn_rl_sound)
next
  show "holds_in sound (snd (clear_queue e m w))"
    using assms by (rule clear_sound)
qed

theorem invariant_kept_witness:
  "holds_in sound (world_of one_pending)
   \<and> queue_task_cc all_ok (post None) [''task-b''] 2000 (world_of one_pending)
       = Some (Q200 ''task-b'' 2,
               \<lparr>blob = Some (b_queued (JObj [])), set_log = [b_queued (JObj [])], sends = 1\<rparr>)
   \<and> sound (b_queued (JObj []))
   \<and> snd (processNextTask_start_rl all_ok (clock_at 4000001) (world_of one_pending))
       = \<lparr>blob = Some a_claimed, set_log = [a_claimed], sends = 0\<rparr>
   \<and> sound a_claimed
   \<and> ''task-a'' \<in> set (processing (getQueueState_cc (world_of a_claimed)))
   \<and> snd (processNextTask_complete_rl all_ok ''task-a'' 4030001 (world_of a_claimed))
       = \<lparr>blob = Some a_completed, set_log = [a_completed], sends = 0\<rparr>
   \<and> sound a_completed"
  using invariant_kept [where w = "world_of one_pending" and e = all_ok and req = "post None"
      and ids = "[''task-b'']" and t = 2000 and c = "clock_at 4000001"]
    invariant_kept [where w = "world_of a_claimed" and e = all_ok and taskId = "''task-a''"
      and t = 4030001]
  by (simp add: sound_def invariant_def no_repeats_def listed_def holds_in_def
      world_of_def one_pending_def a_claimed_def a_completed_def b_queued_def task_b_def
      task_a_def all_ok_def post_def clock_at_def
      queue_task_cc_def getQueueState_cc_def getQueueState_rl_def saveQueueState_def
      store_set_def new_task_def or_else_def enqueue_def numeral_eq_Suc Let_def
      MAX_CONCURRENCY_def wake_quietly_def client_send_def
      processNextTask_start_rl_def processNextTask_complete_rl_def completed_state_def
      claimed_rl_def recentStarts_def history_def RATE_LIMIT_REQUESTS_def
      has_task_iff mark_def object_prototype_def stored_def stored_task_def)

text \<open>
  C4 as stated fails twice. The two invariants allow a queue that holds an identifier
  twice; starting it leaves the identifier both in the queue and in \<open>processing\<close>.
  And a completion does not look at where the identifier is: when another function has
  written back a copy read before the claim (here \<open>b_queued\<close>, the admission of
  \<open>task-b\<close>) while the task ran, the turn completes \<open>task-a\<close> on top of it, and
  \<open>task-a\<close> is both queued and completed.
\<close>

theorem invariant_counterexample:
  "holds_in invariant (world_of twice_pending)
   \<and> \<not> holds_in invariant
         (snd (processNextTask_start_rl all_ok (clock_at 4000001) (world_of twice_pending)))
   \<and> holds_in sound (world_of one_pending)
   \<and> sound (b_queued (JObj []))
   \<and> processNextTask_rl all_ok (clock_at 4000001) (\<lambda>b. Some (b_queued (JObj [])))
        4030001 4030002 (world_of one_pending)
       = (Finished ''task-a'' True,
          \<lparr>blob = Some a_done_still_queued, set_log = [a_claimed, a_done_still_queued],
           sends = 1\<rparr>)
   \<and> \<not> invariant a_done_still_queued"
  by (simp add: sound_def invariant_def no_repeats_def listed_def holds_in_def
      world_of_def one_pending_def twice_pending_def a_claimed_def a_done_still_queued_def
      b_queued_def task_b_def
      task_a_def all_ok_def clock_at_def getQueueState_rl_def saveQueueState_def
      store_set_def Let_def client_send_def
      processNextTask_rl_def processNextTask_retrigger_rl_def
      processNextTask_start_rl_def processNextTask_complete_rl_def completed_state_def
      claimed_rl_def recentStarts_def history_def RATE_LIMIT_REQUESTS_def
      has_task_iff mark_def object_prototype_def stored_def stored_task_def)

end
